theory Spec2Isabelle
  imports Main
begin

section \<open>Data model shared by the three copies of the two-tier sync library\<close>

text \<open>
  The repository holds three copies of the root-side coordinator \<^verbatim>\<open>IframeStateSync\<close>
  (a plain JavaScript copy, a TypeScript copy and the copy of the Svelte demo) and two
  child clients (\<^verbatim>\<open>createChildClient\<close> of the JavaScript/TypeScript copies, built on a
  coordinator in child role, and the stand-alone client of the Svelte demo).
  Each copy is embedded below under a prefix: \<open>js_\<close>, \<open>ts_\<close>, \<open>sv_\<close>.

  Everything the code touches outside its own fields is a field of the record
  \<open>world\<close>: the windows that \<^verbatim>\<open>postMessage\<close> was called on, the console, the user
  callbacks that were invoked, the \<^verbatim>\<open>load\<close> listeners attached to iframe elements, the
  DOM's \<^verbatim>\<open>contentWindow\<close> of each iframe element and the reading of \<^verbatim>\<open>Date.now()\<close>.
\<close>

type_synonym key = string
type_synonym elem = nat \<comment> \<open>identity of an \<^verbatim>\<open>HTMLIFrameElement\<close>\<close>
type_synonym window = nat \<comment> \<open>identity of a \<^verbatim>\<open>WindowProxy\<close>\<close>
type_synonym callback = nat \<comment> \<open>identity of a user callback (a function object)\<close>

text \<open>\<^verbatim>\<open>AtomValue = string | number | boolean | object | null | undefined\<close>; objects are
  left out, no operation of the library looks inside a value.\<close>

datatype atom_value = Undefined | Null | Bool bool | Num int | Str string

text \<open>The two wire messages, and any other object with a \<^verbatim>\<open>type\<close> field; the data of a
  message event is taken to be such an object.\<close>

datatype message =
    AtomSync key atom_value int \<comment> \<open>\<^verbatim>\<open>{type: 'atom-sync', key, value, timestamp}\<close>\<close>
  | AtomSyncRequest int \<comment> \<open>\<^verbatim>\<open>{type: 'atom-sync-request', timestamp}\<close>\<close>
  | OtherMessage string \<comment> \<open>any other type tag\<close>

record message_event =
  data :: message
  source :: "window option" \<comment> \<open>\<^verbatim>\<open>event.source\<close>, which may be null\<close>

datatype target = ToWindow window | ToParent \<comment> \<open>\<^verbatim>\<open>window.parent\<close>\<close>

datatype console_entry = ConsoleLog string | ConsoleWarn string

datatype error = AlreadyRegistered key | NotFound key

text \<open>A call either throws, or returns a result; both leave a state behind.\<close>

datatype ('a, 's) outcome = Threw error 's | Returned 'a 's

fun threw :: "('a, 's) outcome \<Rightarrow> bool" where
  "threw (Threw e s) = True"
| "threw (Returned x s) = False"

fun state_of :: "('a, 's) outcome \<Rightarrow> 's" where
  "state_of (Threw e s) = s"
| "state_of (Returned x s) = s"

text \<open>
  A subscriber of a cell is either the closure that \<^verbatim>\<open>registerAtom\<close> installs,
  \<^verbatim>\<open>(value) => this.broadcastToIframes(config.key, value)\<close>, or a user callback. A user
  callback is opaque: calling it is recorded in \<open>calls\<close> (together with the key of the
  cell that called it), and it is taken not to call back into the library while it runs.
\<close>

datatype subscriber =
    Broadcast key
  | Callback callback
  | Wrapper nat callback
    \<comment> \<open>a fresh closure around a user callback:
       \<^verbatim>\<open>(snapshot) => { callback(snapshot.context.value) }\<close>\<close>

record atom =
  val :: atom_value
  subscribers :: "subscriber list" \<comment> \<open>a \<^verbatim>\<open>Set\<close>, in insertion order\<close>

record options =
  opt_targetOrigin :: "string option"
  opt_debug :: "bool option"

record world =
  atoms :: "(key \<times> atom) list" \<comment> \<open>\<^verbatim>\<open>Map<string, atom>\<close>, in insertion order\<close>
  iframes :: "elem list" \<comment> \<open>\<^verbatim>\<open>Set<HTMLIFrameElement>\<close>, in insertion order\<close>
  targetOrigin :: string
  debug :: bool
  isRoot :: bool
  selfIsTop :: bool \<comment> \<open>\<^verbatim>\<open>window.self === window.top\<close>\<close>
  contentWindow :: "elem \<Rightarrow> window option" \<comment> \<open>\<^verbatim>\<open>iframe.contentWindow\<close>\<close>
  loadListeners :: "elem list" \<comment> \<open>one entry per \<^verbatim>\<open>addEventListener('load', ...)\<close>\<close>
  posted :: "(target \<times> string \<times> message) list" \<comment> \<open>calls of \<^verbatim>\<open>postMessage\<close>\<close>
  console :: "console_entry list"
  calls :: "(key \<times> callback \<times> atom_value) list"
    \<comment> \<open>invocations of user callbacks: the cell's key, the callback, the argument\<close>
  clock :: int \<comment> \<open>\<^verbatim>\<open>Date.now()\<close>\<close>
  nextClosure :: nat \<comment> \<open>identity of the next closure object to be created\<close>
  generation :: "key \<Rightarrow> nat"
    \<comment> \<open>how many cell objects \<^verbatim>\<open>registerAtom\<close> of the JavaScript copy has put under a key\<close>

subsection \<open>JavaScript containers\<close>

text \<open>\<^verbatim>\<open>Map.prototype.set\<close>: an existing key keeps its place, a new one goes last.\<close>

fun map_set :: "'k \<Rightarrow> 'v \<Rightarrow> ('k \<times> 'v) list \<Rightarrow> ('k \<times> 'v) list" where
  "map_set k v [] = [(k, v)]"
| "map_set k v ((k', v') # m) = (if k' = k then (k, v) # m else (k', v') # map_set k v m)"

definition map_has :: "'k \<Rightarrow> ('k \<times> 'v) list \<Rightarrow> bool" where
  "map_has k m = (map_of m k \<noteq> None)"

definition map_delete :: "'k \<Rightarrow> ('k \<times> 'v) list \<Rightarrow> ('k \<times> 'v) list" where
  "map_delete k m = filter (\<lambda>p. fst p \<noteq> k) m"

text \<open>\<^verbatim>\<open>Set.prototype.add\<close> and \<^verbatim>\<open>Set.prototype.delete\<close>.\<close>

definition set_add :: "'a \<Rightarrow> 'a list \<Rightarrow> 'a list" where
  "set_add x xs = (if x \<in> set xs then xs else xs @ [x])"

definition set_delete :: "'a \<Rightarrow> 'a list \<Rightarrow> 'a list" where
  "set_delete x xs = removeAll x xs"

subsection \<open>Effects\<close>

definition postMessage :: "target \<Rightarrow> message \<Rightarrow> world \<Rightarrow> world" where
  "postMessage t m s = s\<lparr>posted := posted s @ [(t, targetOrigin s, m)]\<rparr>"

text \<open>\<^verbatim>\<open>iframe.contentWindow?.postMessage(message, targetOrigin)\<close>\<close>

definition post_to_iframe :: "elem \<Rightarrow> message \<Rightarrow> world \<Rightarrow> world" where
  "post_to_iframe e m s =
     (case contentWindow s e of None \<Rightarrow> s | Some w \<Rightarrow> postMessage (ToWindow w) m s)"

text \<open>\<^verbatim>\<open>event.source?.postMessage(message, targetOrigin)\<close>\<close>

definition post_to_source :: "window option \<Rightarrow> message \<Rightarrow> world \<Rightarrow> world" where
  "post_to_source src m s =
     (case src of None \<Rightarrow> s | Some w \<Rightarrow> postMessage (ToWindow w) m s)"

definition console_log :: "string \<Rightarrow> world \<Rightarrow> world" where
  "console_log txt s = s\<lparr>console := console s @ [ConsoleLog txt]\<rparr>"

definition console_warn :: "string \<Rightarrow> world \<Rightarrow> world" where
  "console_warn txt s = s\<lparr>console := console s @ [ConsoleWarn txt]\<rparr>"

definition invoke :: "key \<Rightarrow> callback \<Rightarrow> atom_value \<Rightarrow> world \<Rightarrow> world" where
  "invoke k c v s = s\<lparr>calls := calls s @ [(k, c, v)]\<rparr>"

subsection \<open>The value-holder primitive\<close>

text \<open>
  The JavaScript copy writes the cell out inside \<^verbatim>\<open>registerAtom\<close>:
  \<^verbatim>\<open>
  const atom = {
    value: config.initialValue,
    subscribers: new Set(),
    get: function() { return this.value; },
    set: function(newValue) {
      this.value = newValue;
      this.subscribers.forEach(fn => fn(newValue));
    },
    subscribe: function(fn) {
      this.subscribers.add(fn);
      fn(this.value);
      return () => this.subscribers.delete(fn);
    }
  };
  \<close>
  The cell that a method is called on is given by its key: it is the cell that the
  coordinator's map holds under that key at the time of the call. The parameter \<open>bc\<close> is
  the copy's own \<^verbatim>\<open>broadcastToIframes\<close>, which the \<open>Broadcast\<close> subscriber calls.
\<close>

definition createAtom :: "atom_value \<Rightarrow> atom" where
  "createAtom initialValue = \<lparr>val = initialValue, subscribers = []\<rparr>"

definition run_subscriber ::
  "(key \<Rightarrow> atom_value \<Rightarrow> world \<Rightarrow> world) \<Rightarrow> key \<Rightarrow> atom_value \<Rightarrow> subscriber \<Rightarrow> world \<Rightarrow> world" where
  "run_subscriber bc k v sub s =
     (case sub of
        Broadcast k' \<Rightarrow> bc k' v s
      | Callback c \<Rightarrow> invoke k c v s
      | Wrapper i c \<Rightarrow> invoke k c v s)"

definition atom_get :: "key \<Rightarrow> world \<Rightarrow> atom_value option" where
  "atom_get k s = map_option val (map_of (atoms s) k)"

definition atom_set ::
  "(key \<Rightarrow> atom_value \<Rightarrow> world \<Rightarrow> world) \<Rightarrow> key \<Rightarrow> atom_value \<Rightarrow> world \<Rightarrow> world" where
  "atom_set bc k newValue s =
     (case map_of (atoms s) k of
        None \<Rightarrow> s
      | Some a \<Rightarrow>
          fold (run_subscriber bc k newValue) (subscribers a)
            (s\<lparr>atoms := map_set k (a\<lparr>val := newValue\<rparr>) (atoms s)\<rparr>))"

definition atom_subscribe ::
  "(key \<Rightarrow> atom_value \<Rightarrow> world \<Rightarrow> world) \<Rightarrow> key \<Rightarrow> subscriber \<Rightarrow> world \<Rightarrow> world" where
  "atom_subscribe bc k fn s =
     (case map_of (atoms s) k of
        None \<Rightarrow> s
      | Some a \<Rightarrow>
          run_subscriber bc k (val a) fn
            (s\<lparr>atoms := map_set k (a\<lparr>subscribers := set_add fn (subscribers a)\<rparr>) (atoms s)\<rparr>))"

text \<open>\<^verbatim>\<open>this.subscribers.delete(fn)\<close>, where \<^verbatim>\<open>this\<close> is the cell under the key \<open>k\<close>. This
  is the body of the function that \<^verbatim>\<open>subscribe\<close> returns; which cell that function keeps
  as \<^verbatim>\<open>this\<close> is a matter of the copy (\<open>js_unsubscribe\<close> below for the JavaScript copy).\<close>

definition atom_unsubscribe :: "key \<Rightarrow> subscriber \<Rightarrow> world \<Rightarrow> world" where
  "atom_unsubscribe k fn s =
     (case map_of (atoms s) k of
        None \<Rightarrow> s
      | Some a \<Rightarrow>
          s\<lparr>atoms := map_set k (a\<lparr>subscribers := set_delete fn (subscribers a)\<rparr>) (atoms s)\<rparr>)"


section \<open>The JavaScript copy of the coordinator\<close>

text \<open>\<^verbatim>\<open>this.options = { targetOrigin: '*', debug: true, ...options }\<close>\<close>

definition js_constructor :: "options \<Rightarrow> world \<Rightarrow> world" where
  "js_constructor opts w =
     (let s = w\<lparr>atoms := [], iframes := [],
                 targetOrigin := (case opt_targetOrigin opts of None \<Rightarrow> ''*'' | Some t \<Rightarrow> t),
                 debug := (case opt_debug opts of None \<Rightarrow> True | Some d \<Rightarrow> d),
                 isRoot := selfIsTop w\<rparr>
      in if debug s then console_log ''[IframeStateSync] Initialized'' s else s)"

definition js_broadcastToIframes :: "key \<Rightarrow> atom_value \<Rightarrow> world \<Rightarrow> world" where
  "js_broadcastToIframes k v s =
     (let message = AtomSync k v (clock s);
          s1 = fold (\<lambda>iframe. post_to_iframe iframe message) (iframes s) s
      in if debug s1 then console_log ''[IframeStateSync] Broadcasted'' s1 else s1)"

text \<open>
  No check for an existing key: \<^verbatim>\<open>this.atoms.set(config.key, atom)\<close> replaces the cell
  under the key by the new cell object. The cell objects put under a key are numbered by
  \<open>generation\<close>, so that the cell now under \<open>k\<close> is told apart from the cells it replaced.
  A replaced cell is no longer held by the coordinator, and is not part of \<open>world\<close>.
\<close>

definition js_registerAtom :: "key \<Rightarrow> atom_value \<Rightarrow> world \<Rightarrow> world" where
  "js_registerAtom k initialValue s =
     (let s1 = s\<lparr>atoms := map_set k (createAtom initialValue) (atoms s),
                  generation := (generation s)(k := Suc (generation s k))\<rparr>;
          s2 = (if isRoot s1 then atom_subscribe js_broadcastToIframes k (Broadcast k) s1 else s1)
      in if debug s2 then console_log ''[IframeStateSync] Registered atom'' s2 else s2)"

text \<open>
  The function that \<^verbatim>\<open>subscribe\<close> of a cell of this copy returns,
  \<^verbatim>\<open>() => this.subscribers.delete(fn)\<close>, keeps the cell object that \<^verbatim>\<open>subscribe\<close> was
  called on: the cell number \<open>n\<close> of the key \<open>k\<close>. As long as that cell is the one under
  \<open>k\<close>, the function deletes \<open>fn\<close> from its subscribers. Once \<^verbatim>\<open>registerAtom\<close> has put
  another cell under \<open>k\<close>, the function still deletes from the cell it has kept, which the
  coordinator no longer holds: the cell now under \<open>k\<close> and the rest of the state stay as
  they are.
\<close>

definition js_unsubscribe :: "key \<Rightarrow> nat \<Rightarrow> subscriber \<Rightarrow> world \<Rightarrow> world" where
  "js_unsubscribe k n fn s = (if generation s k = n then atom_unsubscribe k fn s else s)"

definition js_getAtom :: "key \<Rightarrow> world \<Rightarrow> (atom, world) outcome" where
  "js_getAtom k s =
     (case map_of (atoms s) k of None \<Rightarrow> Threw (NotFound k) s | Some a \<Rightarrow> Returned a s)"

definition js_registerIframe :: "elem \<Rightarrow> world \<Rightarrow> world" where
  "js_registerIframe iframe s =
     (let s1 = s\<lparr>iframes := set_add iframe (iframes s),
                  loadListeners := loadListeners s @ [iframe]\<rparr>
      in if debug s1 then console_log ''[IframeStateSync] Registered iframe'' s1 else s1)"

definition js_syncToIframe :: "elem \<Rightarrow> world \<Rightarrow> world" where
  "js_syncToIframe iframe s =
     (let s1 = fold (\<lambda>(k, a). post_to_iframe iframe (AtomSync k (val a) (clock s))) (atoms s) s
      in if debug s1 then console_log ''[IframeStateSync] Synced all atoms to iframe'' s1 else s1)"

text \<open>The listener that \<^verbatim>\<open>setupMessageListener\<close> installs, run on one message event.\<close>

definition js_setupMessageListener :: "message_event \<Rightarrow> world \<Rightarrow> world" where
  "js_setupMessageListener event s =
     (case data event of
        AtomSync k v t \<Rightarrow>
          (case map_of (atoms s) k of
             None \<Rightarrow> s
           | Some a \<Rightarrow>
               (let s1 = atom_set js_broadcastToIframes k v s
                in if debug s1 then console_log ''[IframeStateSync] Received'' s1 else s1))
      | AtomSyncRequest t \<Rightarrow>
          (if isRoot s then
             (let s1 = (if debug s
                        then console_log ''[IframeStateSync] Received state request from child'' s
                        else s)
              in fold (\<lambda>(k, a). post_to_source (source event) (AtomSync k (val a) (clock s1)))
                   (atoms s1) s1)
           else s)
      | OtherMessage ty \<Rightarrow> s)"

text \<open>A \<^verbatim>\<open>load\<close> event on an iframe element runs every listener attached to it.\<close>

definition js_load :: "elem \<Rightarrow> world \<Rightarrow> world" where
  "js_load iframe s = fold js_syncToIframe (filter (\<lambda>e. e = iframe) (loadListeners s)) s"

definition js_requestStateFromParent :: "world \<Rightarrow> world" where
  "js_requestStateFromParent s =
     (if isRoot s then
        (if debug s
         then console_warn ''[IframeStateSync] Cannot request state from parent in root window'' s
         else s)
      else
        (let s1 = postMessage ToParent (AtomSyncRequest (clock s)) s
         in if debug s1
            then console_log ''[IframeStateSync] Requested initial state from parent'' s1
            else s1))"

definition js_sendToParent :: "key \<Rightarrow> atom_value \<Rightarrow> world \<Rightarrow> world" where
  "js_sendToParent k v s =
     (if isRoot s then
        (if debug s
         then console_warn ''[IframeStateSync] Cannot send to parent from root window'' s
         else s)
      else
        (let s1 = postMessage ToParent (AtomSync k v (clock s)) s
         in if debug s1 then console_log ''[IframeStateSync] Sent to parent'' s1 else s1))"

section \<open>The TypeScript copy of the coordinator\<close>

text \<open>
  The TypeScript copy takes its cells from the vendored library (\<^verbatim>\<open>createAtom\<close> of
  \<^verbatim>\<open>@xstate/store\<close>), whose code is not part of the repository.
  Modelled from the spec: the vendored value holder, missing from the sources, is "construct
  with an initial value; synchronous get/set; subscribe with immediate replay of the current
  value", which is what the cell of the JavaScript copy does; \<open>createAtom\<close>, \<open>atom_get\<close>,
  \<open>atom_set\<close>, \<open>atom_subscribe\<close> and \<open>atom_unsubscribe\<close> above stand for it.
\<close>

text \<open>\<^verbatim>\<open>targetOrigin: options.targetOrigin ?? '*', debug: options.debug ?? false\<close>\<close>

definition ts_constructor :: "options \<Rightarrow> world \<Rightarrow> world" where
  "ts_constructor opts w =
     (let s = w\<lparr>atoms := [], iframes := [],
                 targetOrigin := (case opt_targetOrigin opts of None \<Rightarrow> ''*'' | Some t \<Rightarrow> t),
                 debug := (case opt_debug opts of None \<Rightarrow> False | Some d \<Rightarrow> d),
                 isRoot := selfIsTop w\<rparr>
      in if debug s then console_log ''[IframeStateSync] Initialized'' s else s)"

definition ts_broadcastToIframes :: "key \<Rightarrow> atom_value \<Rightarrow> world \<Rightarrow> world" where
  "ts_broadcastToIframes k v s =
     (let message = AtomSync k v (clock s);
          s1 = fold (\<lambda>iframe. post_to_iframe iframe message) (iframes s) s
      in if debug s1 then console_log ''[IframeStateSync] Broadcasted'' s1 else s1)"

definition ts_registerAtom :: "key \<Rightarrow> atom_value \<Rightarrow> world \<Rightarrow> (unit, world) outcome" where
  "ts_registerAtom k initialValue s =
     (if map_has k (atoms s) then Threw (AlreadyRegistered k) s
      else
        (let s1 = s\<lparr>atoms := map_set k (createAtom initialValue) (atoms s)\<rparr>;
             s2 = (if isRoot s1
                   then atom_subscribe ts_broadcastToIframes k (Broadcast k) s1 else s1)
         in Returned ()
              (if debug s2 then console_log ''[IframeStateSync] Registered atom'' s2 else s2)))"

definition ts_getAtom :: "key \<Rightarrow> world \<Rightarrow> (atom, world) outcome" where
  "ts_getAtom k s =
     (case map_of (atoms s) k of None \<Rightarrow> Threw (NotFound k) s | Some a \<Rightarrow> Returned a s)"

definition ts_registerIframe :: "elem \<Rightarrow> world \<Rightarrow> world" where
  "ts_registerIframe iframe s =
     (let s1 = s\<lparr>iframes := set_add iframe (iframes s),
                  loadListeners := loadListeners s @ [iframe]\<rparr>
      in if debug s1 then console_log ''[IframeStateSync] Registered iframe'' s1 else s1)"

definition ts_unregisterIframe :: "elem \<Rightarrow> world \<Rightarrow> world" where
  "ts_unregisterIframe iframe s =
     (let s1 = s\<lparr>iframes := set_delete iframe (iframes s)\<rparr>
      in if debug s1 then console_log ''[IframeStateSync] Unregistered iframe'' s1 else s1)"

definition ts_syncToIframe :: "elem \<Rightarrow> world \<Rightarrow> world" where
  "ts_syncToIframe iframe s =
     (let s1 = fold (\<lambda>(k, a). post_to_iframe iframe (AtomSync k (val a) (clock s))) (atoms s) s
      in if debug s1 then console_log ''[IframeStateSync] Synced all atoms to iframe'' s1 else s1)"

definition ts_setupMessageListener :: "message_event \<Rightarrow> world \<Rightarrow> world" where
  "ts_setupMessageListener event s =
     (case data event of
        AtomSync k v t \<Rightarrow>
          (case map_of (atoms s) k of
             None \<Rightarrow>
               (if debug s
                then console_warn ''[IframeStateSync] Received update for unknown atom'' s
                else s)
           | Some a \<Rightarrow>
               (let s1 = atom_set ts_broadcastToIframes k v s
                in if debug s1
                   then console_log ''[IframeStateSync] Received update for'' s1 else s1))
      | AtomSyncRequest t \<Rightarrow>
          (if isRoot s then
             (let s1 = (if debug s
                        then console_log ''[IframeStateSync] Received state request from child'' s
                        else s)
              in fold (\<lambda>(k, a). post_to_source (source event) (AtomSync k (val a) (clock s1)))
                   (atoms s1) s1)
           else s)
      | OtherMessage ty \<Rightarrow> s)"

definition ts_load :: "elem \<Rightarrow> world \<Rightarrow> world" where
  "ts_load iframe s = fold ts_syncToIframe (filter (\<lambda>e. e = iframe) (loadListeners s)) s"

definition ts_requestStateFromParent :: "world \<Rightarrow> world" where
  "ts_requestStateFromParent s =
     (if isRoot s then
        (if debug s
         then console_warn ''[IframeStateSync] Cannot request state from parent in root window'' s
         else s)
      else
        (let s1 = postMessage ToParent (AtomSyncRequest (clock s)) s
         in if debug s1
            then console_log ''[IframeStateSync] Requested initial state from parent'' s1
            else s1))"

definition ts_sendToParent :: "key \<Rightarrow> atom_value \<Rightarrow> world \<Rightarrow> world" where
  "ts_sendToParent k v s =
     (if isRoot s then
        (if debug s
         then console_warn ''[IframeStateSync] Cannot send to parent from root window'' s
         else s)
      else
        (let s1 = postMessage ToParent (AtomSync k v (clock s)) s
         in if debug s1 then console_log ''[IframeStateSync] Sent to parent'' s1 else s1))"


subsection \<open>\<^verbatim>\<open>createChildClient\<close> of the JavaScript and TypeScript copies\<close>

text \<open>
  The client keeps \<^verbatim>\<open>sync\<close>, a coordinator, and \<^verbatim>\<open>atoms\<close>, an object with one property
  per configured key holding the cell that \<^verbatim>\<open>registerAtom\<close> returned; \<open>client_atoms\<close> is
  the list of those keys, and the cell itself is the one in the coordinator's map under
  that key (in the JavaScript copy, as long as the key is not registered on \<^verbatim>\<open>sync\<close>
  again). (Keys that are property names of \<^verbatim>\<open>Object.prototype\<close> are left out of the model.)
  A configuration entry is \<^verbatim>\<open>{key, initialValue?}\<close>; a missing \<^verbatim>\<open>initialValue\<close> is
  \<open>Undefined\<close>.
\<close>

record child_client =
  sync :: world
  client_atoms :: "key list"

definition fallback :: "atom_value \<Rightarrow> atom_value" where
  "fallback initialValue = (if initialValue \<noteq> Undefined then initialValue else Null)"

definition js_createChildClient :: "(key \<times> atom_value) list \<Rightarrow> options \<Rightarrow> world \<Rightarrow> child_client" where
  "js_createChildClient atomConfigs opts w =
     (let s0 = js_constructor opts w;
          s1 = fold (\<lambda>(k, iv). js_registerAtom k (fallback iv)) atomConfigs s0
      in \<lparr>sync = js_requestStateFromParent s1, client_atoms = map fst atomConfigs\<rparr>)"

fun ts_registerAll :: "(key \<times> atom_value) list \<Rightarrow> world \<Rightarrow> (unit, world) outcome" where
  "ts_registerAll [] s = Returned () s"
| "ts_registerAll ((k, iv) # configs) s =
     (case ts_registerAtom k (fallback iv) s of
        Threw e s' \<Rightarrow> Threw e s'
      | Returned u s' \<Rightarrow> ts_registerAll configs s')"

definition ts_createChildClient ::
  "(key \<times> atom_value) list \<Rightarrow> options \<Rightarrow> world \<Rightarrow> (child_client, world) outcome" where
  "ts_createChildClient atomConfigs opts w =
     (case ts_registerAll atomConfigs (ts_constructor opts w) of
        Threw e s' \<Rightarrow> Threw e s'
      | Returned u s1 \<Rightarrow>
          (let s2 = ts_requestStateFromParent s1
           in Returned \<lparr>sync = s2, client_atoms = map fst atomConfigs\<rparr> s2))"

definition js_updateAtom :: "key \<Rightarrow> atom_value \<Rightarrow> child_client \<Rightarrow> (unit, child_client) outcome" where
  "js_updateAtom k v c =
     (if k \<notin> set (client_atoms c) then Threw (NotFound k) c
      else Returned ()
             (c\<lparr>sync := js_sendToParent k v (atom_set js_broadcastToIframes k v (sync c))\<rparr>))"

definition ts_updateAtom :: "key \<Rightarrow> atom_value \<Rightarrow> child_client \<Rightarrow> (unit, child_client) outcome" where
  "ts_updateAtom k v c =
     (if k \<notin> set (client_atoms c) then Threw (NotFound k) c
      else Returned ()
             (c\<lparr>sync := ts_sendToParent k v (atom_set ts_broadcastToIframes k v (sync c))\<rparr>))"

text \<open>\<^verbatim>\<open>getAtomValue\<close> is the same text in both copies: it throws for a key that is not a
  property of \<^verbatim>\<open>atoms\<close> and returns \<^verbatim>\<open>atom.get()\<close> otherwise. (\<open>Undefined\<close> in the last
  line stands for a property of \<^verbatim>\<open>atoms\<close> without a cell, which \<^verbatim>\<open>createChildClient\<close>
  never produces.)\<close>

definition getAtomValue :: "key \<Rightarrow> child_client \<Rightarrow> (atom_value, child_client) outcome" where
  "getAtomValue k c =
     (if k \<notin> set (client_atoms c) then Threw (NotFound k) c
      else Returned (case atom_get k (sync c) of Some v \<Rightarrow> v | None \<Rightarrow> Undefined) c)"

definition js_subscribeToAtom :: "key \<Rightarrow> callback \<Rightarrow> child_client \<Rightarrow> (unit, child_client) outcome" where
  "js_subscribeToAtom k cb c =
     (if k \<notin> set (client_atoms c) then Threw (NotFound k) c
      else Returned ()
             (c\<lparr>sync := atom_subscribe js_broadcastToIframes k (Callback cb) (sync c)\<rparr>))"

definition ts_subscribeToAtom :: "key \<Rightarrow> callback \<Rightarrow> child_client \<Rightarrow> (unit, child_client) outcome" where
  "ts_subscribeToAtom k cb c =
     (if k \<notin> set (client_atoms c) then Threw (NotFound k) c
      else Returned ()
             (c\<lparr>sync := atom_subscribe ts_broadcastToIframes k (Callback cb) (sync c)\<rparr>))"

text \<open>The function that \<^verbatim>\<open>subscribeToAtom\<close> of the TypeScript copy returns,
  \<^verbatim>\<open>() => subscription.unsubscribe()\<close>, for the key and the callback it was called with.
  The subscription is one to the cell \<^verbatim>\<open>atoms[key]\<close>, which in this copy stays the cell
  under the key for good: a second \<^verbatim>\<open>registerAtom\<close> with the key throws.\<close>

definition client_unsubscribe :: "key \<Rightarrow> callback \<Rightarrow> child_client \<Rightarrow> child_client" where
  "client_unsubscribe k cb c = c\<lparr>sync := atom_unsubscribe k (Callback cb) (sync c)\<rparr>"

section \<open>The copy of the Svelte demo\<close>

subsection \<open>The coordinator\<close>

text \<open>
  The cells of this copy are \<^verbatim>\<open>createStore({context: {value}, on: {setValue}})\<close> of the
  vendored library: \<^verbatim>\<open>store.send({type: 'setValue', value})\<close> is \<open>atom_set\<close>,
  \<^verbatim>\<open>store.getSnapshot().context.value\<close> is \<open>atom_get\<close>, \<^verbatim>\<open>store.subscribe\<close> is
  \<open>atom_subscribe\<close> (see the note on the vendored value holder above).
  This copy has no \<^verbatim>\<open>isRoot\<close> field; the model leaves the field of \<open>world\<close> as it is.
\<close>

text \<open>\<^verbatim>\<open>options.targetOrigin || '*'\<close>, \<^verbatim>\<open>options.debug || false\<close>: the empty string is falsy.\<close>

definition sv_constructor :: "options \<Rightarrow> world \<Rightarrow> world" where
  "sv_constructor opts w =
     w\<lparr>atoms := [], iframes := [],
       targetOrigin := (case opt_targetOrigin opts of
                          None \<Rightarrow> ''*''
                        | Some t \<Rightarrow> if t = [] then ''*'' else t),
       debug := (case opt_debug opts of None \<Rightarrow> False | Some d \<Rightarrow> d)\<rparr>"

definition sv_log :: "string \<Rightarrow> world \<Rightarrow> world" where
  "sv_log txt s = (if debug s then console_log txt s else s)"

definition sv_broadcastToIframes :: "message \<Rightarrow> world \<Rightarrow> world" where
  "sv_broadcastToIframes message s =
     fold (\<lambda>iframe. post_to_iframe iframe message) (iframes s) s"

text \<open>The subscriber of \<^verbatim>\<open>registerAtom\<close>, which builds the message when it is called.\<close>

definition sv_broadcast :: "key \<Rightarrow> atom_value \<Rightarrow> world \<Rightarrow> world" where
  "sv_broadcast k v s = sv_broadcastToIframes (AtomSync k v (clock s)) s"

definition sv_registerAtom :: "key \<Rightarrow> atom_value \<Rightarrow> world \<Rightarrow> world" where
  "sv_registerAtom k initialValue s =
     (if map_has k (atoms s) then sv_log ''Atom already registered'' s
      else
        (let s1 = s\<lparr>atoms := map_set k (createAtom initialValue) (atoms s)\<rparr>;
             s2 = sv_log ''Registered atom'' s1
         in atom_subscribe sv_broadcast k (Broadcast k) s2))"

definition sv_syncAllToIframe :: "elem \<Rightarrow> world \<Rightarrow> world" where
  "sv_syncAllToIframe iframe s =
     (case contentWindow s iframe of
        None \<Rightarrow> s
      | Some w \<Rightarrow>
          fold (\<lambda>(k, a) s'. sv_log ''Synced to iframe''
                             (postMessage (ToWindow w) (AtomSync k (val a) (clock s')) s'))
            (atoms s) s)"

definition sv_registerIframe :: "elem \<Rightarrow> world \<Rightarrow> world" where
  "sv_registerIframe iframe s =
     (let s1 = s\<lparr>iframes := set_add iframe (iframes s)\<rparr>;
          s2 = sv_log ''Registered iframe'' s1
      in s2\<lparr>loadListeners := loadListeners s2 @ [iframe]\<rparr>)"

definition sv_load :: "elem \<Rightarrow> world \<Rightarrow> world" where
  "sv_load iframe s =
     fold (\<lambda>e s'. sv_syncAllToIframe e (sv_log ''Iframe loaded, syncing all atoms'' s'))
       (filter (\<lambda>e. e = iframe) (loadListeners s)) s"

definition sv_unregisterIframe :: "elem \<Rightarrow> world \<Rightarrow> world" where
  "sv_unregisterIframe iframe s =
     sv_log ''Unregistered iframe'' (s\<lparr>iframes := set_delete iframe (iframes s)\<rparr>)"

definition sv_setValue :: "key \<Rightarrow> atom_value \<Rightarrow> world \<Rightarrow> world" where
  "sv_setValue k v s =
     (case map_of (atoms s) k of
        None \<Rightarrow> sv_log ''Atom not found'' s
      | Some a \<Rightarrow> atom_set sv_broadcast k v s)"

text \<open>\<^verbatim>\<open>store?.getSnapshot().context.value\<close>: \<^verbatim>\<open>undefined\<close> for a key with no store.\<close>

definition sv_getValue :: "key \<Rightarrow> world \<Rightarrow> atom_value" where
  "sv_getValue k s = (case map_of (atoms s) k of None \<Rightarrow> Undefined | Some a \<Rightarrow> val a)"

text \<open>\<open>sv_subscribe\<close> wraps the callback in a new closure at every call; the closure's
  identity is the result, with which \<open>sv_unsubscribe\<close> removes it again. For a key with no
  store the result is \<open>None\<close>, the function \<^verbatim>\<open>() => {}\<close>.\<close>

definition sv_subscribe :: "key \<Rightarrow> callback \<Rightarrow> world \<Rightarrow> nat option \<times> world" where
  "sv_subscribe k cb s =
     (case map_of (atoms s) k of
        None \<Rightarrow> (None, sv_log ''Atom not found for subscription'' s)
      | Some a \<Rightarrow>
          (Some (nextClosure s),
           atom_subscribe sv_broadcast k (Wrapper (nextClosure s) cb)
             (s\<lparr>nextClosure := Suc (nextClosure s)\<rparr>)))"

definition sv_unsubscribe :: "key \<Rightarrow> nat option \<Rightarrow> callback \<Rightarrow> world \<Rightarrow> world" where
  "sv_unsubscribe k h cb s =
     (case h of None \<Rightarrow> s | Some i \<Rightarrow> atom_unsubscribe k (Wrapper i cb) s)"

definition sv_setupMessageListener :: "message_event \<Rightarrow> world \<Rightarrow> world" where
  "sv_setupMessageListener event s =
     (case data event of
        AtomSyncRequest t \<Rightarrow>
          (let s1 = sv_log ''Received sync request from iframe'' s
           in case find (\<lambda>iframe. contentWindow s1 iframe = source event) (iframes s1) of
                Some iframe \<Rightarrow> sv_syncAllToIframe iframe s1
              | None \<Rightarrow> s1)
      | AtomSync k v t \<Rightarrow> sv_setValue k v (sv_log ''Received atom update from iframe'' s)
      | OtherMessage ty \<Rightarrow> s)"

definition sv_destroy :: "world \<Rightarrow> world" where
  "sv_destroy s = s\<lparr>atoms := [], iframes := []\<rparr>"


subsection \<open>The child client\<close>

text \<open>
  The client of the Svelte demo does not use a coordinator: it keeps
  \<^verbatim>\<open>state = new Map<string, AtomValue>()\<close> and
  \<^verbatim>\<open>subscribers = new Map<string, Set<callback>>()\<close> of its own.
\<close>

record sv_child =
  c_state :: "(key \<times> atom_value) list"
  c_subscribers :: "(key \<times> callback list) list"
  c_targetOrigin :: string
  c_debug :: bool
  c_listening :: bool \<comment> \<open>\<^verbatim>\<open>handleMessage\<close> is attached to the window\<close>
  c_posted :: "(target \<times> string \<times> message) list"
  c_console :: "console_entry list"
  c_calls :: "(key \<times> callback \<times> atom_value) list"
  c_clock :: int

definition c_log :: "string \<Rightarrow> sv_child \<Rightarrow> sv_child" where
  "c_log txt c = (if c_debug c then c\<lparr>c_console := c_console c @ [ConsoleLog txt]\<rparr> else c)"

definition c_postToParent :: "message \<Rightarrow> sv_child \<Rightarrow> sv_child" where
  "c_postToParent m c = c\<lparr>c_posted := c_posted c @ [(ToParent, c_targetOrigin c, m)]\<rparr>"

definition c_invoke :: "key \<Rightarrow> atom_value \<Rightarrow> callback \<Rightarrow> sv_child \<Rightarrow> sv_child" where
  "c_invoke k v cb c = c\<lparr>c_calls := c_calls c @ [(k, cb, v)]\<rparr>"

text \<open>\<^verbatim>\<open>Map.prototype.get\<close> on \<^verbatim>\<open>state\<close>: \<^verbatim>\<open>undefined\<close> for a missing key.\<close>

definition state_get :: "key \<Rightarrow> sv_child \<Rightarrow> atom_value" where
  "state_get k c = (case map_of (c_state c) k of None \<Rightarrow> Undefined | Some v \<Rightarrow> v)"

definition handleMessage :: "message_event \<Rightarrow> sv_child \<Rightarrow> sv_child" where
  "handleMessage event c =
     (case data event of
        AtomSync k v t \<Rightarrow>
          (let c1 = c_log ''Received atom update'' c;
               c2 = c1\<lparr>c_state := map_set k v (c_state c1)\<rparr>
           in case map_of (c_subscribers c2) k of
                None \<Rightarrow> c2
              | Some subs \<Rightarrow> fold (c_invoke k v) subs c2)
      | AtomSyncRequest t \<Rightarrow> c
      | OtherMessage ty \<Rightarrow> c)"

text \<open>A message event on the window reaches \<^verbatim>\<open>handleMessage\<close> while it is attached.\<close>

definition c_message :: "message_event \<Rightarrow> sv_child \<Rightarrow> sv_child" where
  "c_message event c = (if c_listening c then handleMessage event c else c)"

definition requestSync :: "sv_child \<Rightarrow> sv_child" where
  "requestSync c = c_log ''Requested sync from parent'' (c_postToParent (AtomSyncRequest (c_clock c)) c)"

definition sv_createChildClient :: "options \<Rightarrow> sv_child \<Rightarrow> sv_child" where
  "sv_createChildClient opts env =
     requestSync
       (env\<lparr>c_state := [], c_subscribers := [],
            c_targetOrigin := (case opt_targetOrigin opts of
                                 None \<Rightarrow> ''*''
                               | Some t \<Rightarrow> if t = [] then ''*'' else t),
            c_debug := (case opt_debug opts of None \<Rightarrow> False | Some d \<Rightarrow> d),
            c_listening := True\<rparr>)"

text \<open>\<^verbatim>\<open>getValue(key) { return state.get(key) as T; }\<close>, declared to return
  \<^verbatim>\<open>T | undefined\<close>. There is no \<^verbatim>\<open>throw\<close> in it; the result is an \<open>outcome\<close> so that
  the lookups of all copies compare.\<close>

definition getValue :: "key \<Rightarrow> sv_child \<Rightarrow> (atom_value, sv_child) outcome" where
  "getValue k c = Returned (state_get k c) c"

definition setValue :: "key \<Rightarrow> atom_value \<Rightarrow> sv_child \<Rightarrow> sv_child" where
  "setValue k v c =
     (let c1 = c\<lparr>c_state := map_set k v (c_state c)\<rparr>;
          c2 = c_postToParent (AtomSync k v (c_clock c1)) c1
      in c_log ''Sent atom update'' c2)"

definition subscribe :: "key \<Rightarrow> callback \<Rightarrow> sv_child \<Rightarrow> sv_child" where
  "subscribe k cb c =
     (let c1 = (if \<not> map_has k (c_subscribers c)
                then c\<lparr>c_subscribers := map_set k [] (c_subscribers c)\<rparr> else c);
          subs = (case map_of (c_subscribers c1) k of None \<Rightarrow> [] | Some xs \<Rightarrow> xs);
          c2 = c1\<lparr>c_subscribers := map_set k (set_add cb subs) (c_subscribers c1)\<rparr>;
          c3 = c_log ''Subscribed to'' c2;
          currentValue = state_get k c3
      in if currentValue \<noteq> Undefined then c_invoke k currentValue cb c3 else c3)"

text \<open>The function that \<open>subscribe\<close> returns, for the key and the callback it was called
  with.\<close>

definition unsubscribe :: "key \<Rightarrow> callback \<Rightarrow> sv_child \<Rightarrow> sv_child" where
  "unsubscribe k cb c =
     c_log ''Unsubscribed from''
       (case map_of (c_subscribers c) k of
          None \<Rightarrow> c
        | Some subs \<Rightarrow>
            (let subs' = set_delete cb subs
             in if length subs' = 0
                then c\<lparr>c_subscribers := map_delete k (c_subscribers c)\<rparr>
                else c\<lparr>c_subscribers := map_set k subs' (c_subscribers c)\<rparr>))"

definition c_destroy :: "sv_child \<Rightarrow> sv_child" where
  "c_destroy c = c_log ''Client destroyed'' (c\<lparr>c_listening := False, c_state := [], c_subscribers := []\<rparr>)"


section \<open>The copies side by side\<close>

text \<open>
  The operations of the three coordinators under one name each, so that a statement can
  range over the copies. Where a copy has no such method the operation leaves the state as
  it is: the JavaScript copy has no \<^verbatim>\<open>unregisterIframe\<close>, the Svelte copy has no
  \<^verbatim>\<open>sendToParent\<close> and no \<^verbatim>\<open>requestStateFromParent\<close>, only the Svelte copy has
  \<^verbatim>\<open>destroy\<close>. A cell is set through \<^verbatim>\<open>atom.set(value)\<close> in the JavaScript and
  TypeScript copies and through \<^verbatim>\<open>setValue(key, value)\<close> in the Svelte copy.
\<close>

datatype copy = JS | TS | Svelte

definition constructor :: "copy \<Rightarrow> options \<Rightarrow> world \<Rightarrow> world" where
  "constructor cp opts w =
     (case cp of JS \<Rightarrow> js_constructor opts w
               | TS \<Rightarrow> ts_constructor opts w
               | Svelte \<Rightarrow> sv_constructor opts w)"

definition broadcast :: "copy \<Rightarrow> key \<Rightarrow> atom_value \<Rightarrow> world \<Rightarrow> world" where
  "broadcast cp =
     (case cp of JS \<Rightarrow> js_broadcastToIframes
               | TS \<Rightarrow> ts_broadcastToIframes
               | Svelte \<Rightarrow> sv_broadcast)"

definition registerAtom :: "copy \<Rightarrow> key \<Rightarrow> atom_value \<Rightarrow> world \<Rightarrow> (unit, world) outcome" where
  "registerAtom cp k v s =
     (case cp of JS \<Rightarrow> Returned () (js_registerAtom k v s)
               | TS \<Rightarrow> ts_registerAtom k v s
               | Svelte \<Rightarrow> Returned () (sv_registerAtom k v s))"

definition registerIframe :: "copy \<Rightarrow> elem \<Rightarrow> world \<Rightarrow> world" where
  "registerIframe cp e s =
     (case cp of JS \<Rightarrow> js_registerIframe e s
               | TS \<Rightarrow> ts_registerIframe e s
               | Svelte \<Rightarrow> sv_registerIframe e s)"

definition unregisterIframe :: "copy \<Rightarrow> elem \<Rightarrow> world \<Rightarrow> world" where
  "unregisterIframe cp e s =
     (case cp of JS \<Rightarrow> s
               | TS \<Rightarrow> ts_unregisterIframe e s
               | Svelte \<Rightarrow> sv_unregisterIframe e s)"

definition setupMessageListener :: "copy \<Rightarrow> message_event \<Rightarrow> world \<Rightarrow> world" where
  "setupMessageListener cp event s =
     (case cp of JS \<Rightarrow> js_setupMessageListener event s
               | TS \<Rightarrow> ts_setupMessageListener event s
               | Svelte \<Rightarrow> sv_setupMessageListener event s)"

definition load :: "copy \<Rightarrow> elem \<Rightarrow> world \<Rightarrow> world" where
  "load cp e s =
     (case cp of JS \<Rightarrow> js_load e s | TS \<Rightarrow> ts_load e s | Svelte \<Rightarrow> sv_load e s)"

definition cell_set :: "copy \<Rightarrow> key \<Rightarrow> atom_value \<Rightarrow> world \<Rightarrow> world" where
  "cell_set cp k v s =
     (case cp of JS \<Rightarrow> atom_set js_broadcastToIframes k v s
               | TS \<Rightarrow> atom_set ts_broadcastToIframes k v s
               | Svelte \<Rightarrow> sv_setValue k v s)"

definition cell_subscribe :: "copy \<Rightarrow> key \<Rightarrow> callback \<Rightarrow> world \<Rightarrow> world" where
  "cell_subscribe cp k cb s =
     (case cp of JS \<Rightarrow> atom_subscribe js_broadcastToIframes k (Callback cb) s
               | TS \<Rightarrow> atom_subscribe ts_broadcastToIframes k (Callback cb) s
               | Svelte \<Rightarrow> snd (sv_subscribe k cb s))"

text \<open>
  What can happen to a coordinator after its construction: a call of one of its methods or
  of a method of one of its cells, a message or load event, and the two changes of the
  environment that the code reads (an iframe element gets or loses its window, the clock
  moves). The cells are the ones that the coordinator holds. A function that \<^verbatim>\<open>subscribe\<close>
  of a replaced cell of the JavaScript copy returned is not among the operations: it leaves
  the state as it is (\<open>js_unsubscribe\<close>).
\<close>

datatype op =
    RegisterAtom key atom_value
  | GetAtom key
  | RegisterIframe elem
  | UnregisterIframe elem
  | CellSet key atom_value
  | CellSubscribe key callback
  | CellUnsubscribe key callback
    \<comment> \<open>the function returned by \<^verbatim>\<open>atom.subscribe(cb)\<close> of the cell now under the key\<close>
  | WrapperUnsubscribe key nat callback \<comment> \<open>the one returned by the Svelte \<^verbatim>\<open>subscribe\<close>\<close>
  | Message message_event
  | Load elem
  | RequestStateFromParent
  | SendToParent key atom_value
  | Destroy
  | DomChange elem "window option"
  | ClockTick int

definition step :: "copy \<Rightarrow> op \<Rightarrow> world \<Rightarrow> world" where
  "step cp operation s =
     (case operation of
        RegisterAtom k v \<Rightarrow> state_of (registerAtom cp k v s)
      | GetAtom k \<Rightarrow>
          (case cp of JS \<Rightarrow> state_of (js_getAtom k s)
                    | TS \<Rightarrow> state_of (ts_getAtom k s)
                    | Svelte \<Rightarrow> s)
      | RegisterIframe e \<Rightarrow> registerIframe cp e s
      | UnregisterIframe e \<Rightarrow> unregisterIframe cp e s
      | CellSet k v \<Rightarrow> cell_set cp k v s
      | CellSubscribe k cb \<Rightarrow> cell_subscribe cp k cb s
      | CellUnsubscribe k cb \<Rightarrow>
          (case cp of JS \<Rightarrow> js_unsubscribe k (generation s k) (Callback cb) s
                    | TS \<Rightarrow> atom_unsubscribe k (Callback cb) s
                    | Svelte \<Rightarrow> s)
      | WrapperUnsubscribe k i cb \<Rightarrow>
          (case cp of Svelte \<Rightarrow> sv_unsubscribe k (Some i) cb s | _ \<Rightarrow> s)
      | Message event \<Rightarrow> setupMessageListener cp event s
      | Load e \<Rightarrow> load cp e s
      | RequestStateFromParent \<Rightarrow>
          (case cp of JS \<Rightarrow> js_requestStateFromParent s
                    | TS \<Rightarrow> ts_requestStateFromParent s
                    | Svelte \<Rightarrow> s)
      | SendToParent k v \<Rightarrow>
          (case cp of JS \<Rightarrow> js_sendToParent k v s
                    | TS \<Rightarrow> ts_sendToParent k v s
                    | Svelte \<Rightarrow> s)
      | Destroy \<Rightarrow> (case cp of Svelte \<Rightarrow> sv_destroy s | _ \<Rightarrow> s)
      | DomChange e w \<Rightarrow> s\<lparr>contentWindow := (contentWindow s)(e := w)\<rparr>
      | ClockTick t \<Rightarrow> s\<lparr>clock := t\<rparr>)"

definition run :: "copy \<Rightarrow> op list \<Rightarrow> world \<Rightarrow> world" where
  "run cp ops s = fold (step cp) ops s"

text \<open>The same for the child client of the Svelte demo.\<close>

datatype child_op =
    CMessage message_event
  | CGetValue key
  | CSetValue key atom_value
  | CSubscribe key callback
  | CUnsubscribe key callback
  | CRequestSync
  | CDestroy
  | CClockTick int

definition child_step :: "child_op \<Rightarrow> sv_child \<Rightarrow> sv_child" where
  "child_step operation c =
     (case operation of
        CMessage event \<Rightarrow> c_message event c
      | CGetValue k \<Rightarrow> state_of (getValue k c)
      | CSetValue k v \<Rightarrow> setValue k v c
      | CSubscribe k cb \<Rightarrow> subscribe k cb c
      | CUnsubscribe k cb \<Rightarrow> unsubscribe k cb c
      | CRequestSync \<Rightarrow> requestSync c
      | CDestroy \<Rightarrow> c_destroy c
      | CClockTick t \<Rightarrow> c\<lparr>c_clock := t\<rparr>)"

definition child_run :: "child_op list \<Rightarrow> sv_child \<Rightarrow> sv_child" where
  "child_run ops c = fold child_step ops c"

text \<open>
  And for the child client of the TypeScript copy, once \<^verbatim>\<open>createChildClient\<close> has returned
  it: a call of one of its three methods or of a function that \<^verbatim>\<open>subscribeToAtom\<close> returned,
  and whatever can happen to its coordinator \<^verbatim>\<open>sync\<close>, which the client hands out together
  with its cells. A method that throws leaves the client as it is.
\<close>

datatype client_op =
    UpdateAtom key atom_value
  | GetAtomValue key
  | SubscribeToAtom key callback
  | Unsubscribe key callback \<comment> \<open>the function returned by \<^verbatim>\<open>subscribeToAtom(key, cb)\<close>\<close>
  | OnSync op

definition ts_client_step :: "client_op \<Rightarrow> child_client \<Rightarrow> child_client" where
  "ts_client_step operation c =
     (case operation of
        UpdateAtom k v \<Rightarrow> state_of (ts_updateAtom k v c)
      | GetAtomValue k \<Rightarrow> state_of (getAtomValue k c)
      | SubscribeToAtom k cb \<Rightarrow> state_of (ts_subscribeToAtom k cb c)
      | Unsubscribe k cb \<Rightarrow> client_unsubscribe k cb c
      | OnSync x \<Rightarrow> c\<lparr>sync := step TS x (sync c)\<rparr>)"

definition ts_client_run :: "client_op list \<Rightarrow> child_client \<Rightarrow> child_client" where
  "ts_client_run ops c = fold ts_client_step ops c"

text \<open>What an operation added to the logs: the part of the log of \<open>s'\<close> after that of \<open>s\<close>.\<close>

definition new_posted :: "world \<Rightarrow> world \<Rightarrow> (target \<times> string \<times> message) list" where
  "new_posted s s' = drop (length (posted s)) (posted s')"

definition new_calls :: "world \<Rightarrow> world \<Rightarrow> (key \<times> callback \<times> atom_value) list" where
  "new_calls s s' = drop (length (calls s)) (calls s')"

definition new_console :: "world \<Rightarrow> world \<Rightarrow> console_entry list" where
  "new_console s s' = drop (length (console s)) (console s')"

definition c_new_calls :: "sv_child \<Rightarrow> sv_child \<Rightarrow> (key \<times> callback \<times> atom_value) list" where
  "c_new_calls c c' = drop (length (c_calls c)) (c_calls c')"

text \<open>Concrete environments for the examples: a top-level window whose iframe element
  \<open>e\<close> has the window \<open>100 + e\<close>, and an embedded window.\<close>

definition top_window :: world where
  "top_window = \<lparr>atoms = [], iframes = [], targetOrigin = [], debug = False, isRoot = False,
     selfIsTop = True, contentWindow = (\<lambda>e. Some (100 + e)), loadListeners = [], posted = [],
     console = [], calls = [], clock = 0, nextClosure = 0, generation = (\<lambda>k. 0)\<rparr>"

definition embedded_window :: sv_child where
  "embedded_window = \<lparr>c_state = [], c_subscribers = [], c_targetOrigin = [], c_debug = False,
     c_listening = False, c_posted = [], c_console = [], c_calls = [], c_clock = 0\<rparr>"

definition no_options :: options where
  "no_options = \<lparr>opt_targetOrigin = None, opt_debug = None\<rparr>"


subsection \<open>What the operations add to the logs\<close>

text \<open>The messages of one call of \<^verbatim>\<open>broadcastToIframes\<close>: one for each registered iframe
  element that has a window, in the order of registration.\<close>

definition bc_posts :: "key \<Rightarrow> atom_value \<Rightarrow> world \<Rightarrow> (target \<times> string \<times> message) list" where
  "bc_posts k v s =
     map (\<lambda>w. (ToWindow w, targetOrigin s, AtomSync k v (clock s)))
       (List.map_filter (contentWindow s) (iframes s))"

definition bc_console :: "copy \<Rightarrow> world \<Rightarrow> console_entry list" where
  "bc_console cp s =
     (if cp \<noteq> Svelte \<and> debug s then [ConsoleLog ''[IframeStateSync] Broadcasted''] else [])"

text \<open>What notifying the subscribers of a cell adds to the three logs.\<close>

definition notify_posts :: "subscriber list \<Rightarrow> atom_value \<Rightarrow> world \<Rightarrow> (target \<times> string \<times> message) list" where
  "notify_posts subs v s =
     concat (map (\<lambda>sub. case sub of Broadcast k \<Rightarrow> bc_posts k v s | _ \<Rightarrow> []) subs)"

definition notify_console :: "copy \<Rightarrow> subscriber list \<Rightarrow> world \<Rightarrow> console_entry list" where
  "notify_console cp subs s =
     concat (map (\<lambda>sub. case sub of Broadcast k \<Rightarrow> bc_console cp s | _ \<Rightarrow> []) subs)"

definition notify_calls :: "key \<Rightarrow> atom_value \<Rightarrow> subscriber list \<Rightarrow> (key \<times> callback \<times> atom_value) list" where
  "notify_calls k v subs =
     concat (map (\<lambda>sub. case sub of Broadcast k' \<Rightarrow> [] | Callback c \<Rightarrow> [(k, c, v)]
                                    | Wrapper i c \<Rightarrow> [(k, c, v)]) subs)"

text \<open>One \<^verbatim>\<open>atom-sync\<close> message for each registered cell, carrying the cell's current
  value, addressed to the window \<open>w\<close>.\<close>

definition sync_posts :: "window \<Rightarrow> world \<Rightarrow> (target \<times> string \<times> message) list" where
  "sync_posts w s =
     map (\<lambda>(k, a). (ToWindow w, targetOrigin s, AtomSync k (val a) (clock s))) (atoms s)"

text \<open>The console lines of one run of a \<^verbatim>\<open>load\<close> listener on the element \<open>e\<close>.\<close>

definition listener_console :: "copy \<Rightarrow> elem \<Rightarrow> world \<Rightarrow> console_entry list" where
  "listener_console cp e s =
     (if debug s then
        (case cp of
           Svelte \<Rightarrow>
             ConsoleLog ''Iframe loaded, syncing all atoms'' #
             (case contentWindow s e of
                None \<Rightarrow> []
              | Some w \<Rightarrow> replicate (length (atoms s)) (ConsoleLog ''Synced to iframe''))
         | _ \<Rightarrow> [ConsoleLog ''[IframeStateSync] Synced all atoms to iframe''])
      else [])"

text \<open>The iframe elements that a list of operations passes to \<^verbatim>\<open>registerIframe\<close>.\<close>

definition registrations :: "op list \<Rightarrow> elem list" where
  "registrations ops = List.map_filter (\<lambda>x. case x of RegisterIframe e \<Rightarrow> Some e | _ \<Rightarrow> None) ops"

text \<open>In a root coordinator every cell carries the subscriber that broadcasts it.\<close>

definition broadcasting :: "world \<Rightarrow> bool" where
  "broadcasting s = (\<forall>(k, a) \<in> set (atoms s). Broadcast k \<in> set (subscribers a))"

text \<open>A coordinator built with no options in a top-level window, with the one cell
  \<^verbatim>\<open>"x"\<close> of value 1.\<close>

definition one_cell :: "copy \<Rightarrow> world" where
  "one_cell cp = run cp [RegisterAtom ''x'' (Num 1)] (constructor cp no_options top_window)"

text \<open>The subscriber that \<open>cell_subscribe\<close> adds for the callback \<open>cb\<close>: the callback itself,
  or in the Svelte copy the new closure around it. The function that the call returns
  removes this subscriber from the cell again (\<open>atom_unsubscribe\<close>, on the cell that it was
  added to).\<close>

definition subscription :: "copy \<Rightarrow> world \<Rightarrow> callback \<Rightarrow> subscriber" where
  "subscription cp s cb = (case cp of Svelte \<Rightarrow> Wrapper (nextClosure s) cb | _ \<Rightarrow> Callback cb)"

text \<open>One \<^verbatim>\<open>load\<close> listener, as \<^verbatim>\<open>registerIframe\<close> attaches it to the element \<open>e\<close>.\<close>

definition listener :: "copy \<Rightarrow> elem \<Rightarrow> world \<Rightarrow> world" where
  "listener cp e s =
     (case cp of JS \<Rightarrow> js_syncToIframe e s
               | TS \<Rightarrow> ts_syncToIframe e s
               | Svelte \<Rightarrow> sv_syncAllToIframe e (sv_log ''Iframe loaded, syncing all atoms'' s))"

text \<open>A property of the subscriber set of every cell.\<close>

definition cells_ok :: "(key \<Rightarrow> subscriber list \<Rightarrow> bool) \<Rightarrow> world \<Rightarrow> bool" where
  "cells_ok Q s = (\<forall>(k, a) \<in> set (atoms s). Q k (subscribers a))"

text \<open>The JavaScript and TypeScript copies never wrap a callback.\<close>

fun is_wrapper :: "subscriber \<Rightarrow> bool" where
  "is_wrapper (Wrapper i c) = True"
| "is_wrapper sub = False"

definition wrapper_free :: "world \<Rightarrow> bool" where
  "wrapper_free s = cells_ok (\<lambda>k subs. \<forall>sub \<in> set subs. \<not> is_wrapper sub) s"

text \<open>The callback \<open>cb\<close> is subscribed to the cell \<open>k\<close>, as itself or inside a wrapper.\<close>

fun calls_back :: "subscriber \<Rightarrow> callback \<Rightarrow> bool" where
  "calls_back (Callback c) cb = (c = cb)"
| "calls_back (Wrapper i c) cb = (c = cb)"
| "calls_back (Broadcast k) cb = False"

definition listens :: "world \<Rightarrow> key \<Rightarrow> callback \<Rightarrow> bool" where
  "listens s k cb =
     (case map_of (atoms s) k of
        None \<Rightarrow> False
      | Some a \<Rightarrow> \<exists>sub \<in> set (subscribers a). calls_back sub cb)"

text \<open>The coordinator \<open>one_cell\<close> with the iframe elements 2 and 3 registered and the user
  callback 5 subscribed to its cell.\<close>

definition two_frames :: "copy \<Rightarrow> world" where
  "two_frames cp =
     run cp [RegisterIframe 2, RegisterIframe 3, CellSubscribe ''x'' 5] (one_cell cp)"

text \<open>The subscribers of the cell \<open>k\<close>, none if there is no such cell.\<close>

definition subs_of :: "world \<Rightarrow> key \<Rightarrow> subscriber list" where
  "subs_of s k = (case map_of (atoms s) k of None \<Rightarrow> [] | Some a \<Rightarrow> subscribers a)"

definition c_subs :: "sv_child \<Rightarrow> key \<Rightarrow> callback list" where
  "c_subs c k = (case map_of (c_subscribers c) k of None \<Rightarrow> [] | Some subs \<Rightarrow> subs)"

text \<open>The registrations that \<^verbatim>\<open>createChildClient\<close> makes for its configuration.\<close>

definition registerAll :: "(key \<times> atom_value) list \<Rightarrow> op list" where
  "registerAll atomConfigs = map (\<lambda>(k, iv). RegisterAtom k (fallback iv)) atomConfigs"

text \<open>What an operation of the TypeScript child client with the configured keys \<open>ks\<close> does to
  its coordinator, as operations of the coordinator.\<close>

definition sync_ops :: "key list \<Rightarrow> client_op \<Rightarrow> op list" where
  "sync_ops ks operation =
     (case operation of
        UpdateAtom k v \<Rightarrow> (if k \<in> set ks then [CellSet k v, SendToParent k v] else [])
      | GetAtomValue k \<Rightarrow> []
      | SubscribeToAtom k cb \<Rightarrow> (if k \<in> set ks then [CellSubscribe k cb] else [])
      | Unsubscribe k cb \<Rightarrow> [CellUnsubscribe k cb]
      | OnSync x \<Rightarrow> [x])"

text \<open>An embedded window, for a coordinator in child role.\<close>

definition inner_window :: world where
  "inner_window = top_window\<lparr>selfIsTop := False\<rparr>"

text \<open>The child client of the TypeScript copy that \<^verbatim>\<open>createChildClient\<close> returns in an
  embedded window for the one key \<^verbatim>\<open>"x"\<close> with the initial value 1 and no options.\<close>

definition x_client :: child_client where
  "x_client =
     \<lparr>sync = run TS [RegisterAtom ''x'' (Num 1), RequestStateFromParent]
               (constructor TS no_options inner_window),
      client_atoms = [''x'']\<rparr>"

section \<open>Containers and effects\<close>

lemma map_of_map_set: "map_of (map_set k v m) = (map_of m)(k \<mapsto> v)"
  by (induction m) (auto simp: fun_eq_iff)

lemma map_set_same: "map_of m k = Some v \<Longrightarrow> map_set k v m = m"
  by (induction m) (auto split: if_splits)

lemma set_map_set: "set (map_set k v m) \<subseteq> insert (k, v) (set m)"
  by (induction m) (auto split: if_splits)

lemma map_of_map_delete: "map_of (map_delete k m) = (map_of m)(k := None)"
  by (induction m) (auto simp: map_delete_def fun_eq_iff)

lemma fold_post_iframes:
  "fold (\<lambda>e. post_to_iframe e m) es s =
     s\<lparr>posted := posted s @ map (\<lambda>w. (ToWindow w, targetOrigin s, m))
                                (List.map_filter (contentWindow s) es)\<rparr>"
proof (induction es arbitrary: s)
  case Nil
  show ?case by (simp add: List.map_filter_simps)
next
  case (Cons e es)
  show ?case
    apply (simp only: fold_simps comp_apply Cons)
    apply (simp add: List.map_filter_simps post_to_iframe_def postMessage_def
        split: option.splits)
    done
qed

lemma fold_sync_iframe:
  "fold (\<lambda>(k, a). post_to_iframe e (AtomSync k (val a) t)) m s =
     (case contentWindow s e of
        None \<Rightarrow> s
      | Some w \<Rightarrow>
          s\<lparr>posted := posted s @
              map (\<lambda>(k, a). (ToWindow w, targetOrigin s, AtomSync k (val a) t)) m\<rparr>)"
proof (induction m arbitrary: s)
  case Nil
  show ?case by (simp split: option.splits)
next
  case (Cons p m)
  show ?case
    apply (simp only: fold_simps comp_apply Cons)
    apply (cases p)
    apply (simp add: post_to_iframe_def postMessage_def split: option.splits)
    done
qed

lemma fold_sync_source:
  "fold (\<lambda>(k, a). post_to_source src (AtomSync k (val a) t)) m s =
     (case src of
        None \<Rightarrow> s
      | Some w \<Rightarrow>
          s\<lparr>posted := posted s @
              map (\<lambda>(k, a). (ToWindow w, targetOrigin s, AtomSync k (val a) t)) m\<rparr>)"
proof (induction m arbitrary: s)
  case Nil
  show ?case by (simp split: option.splits)
next
  case (Cons p m)
  show ?case
    apply (simp only: fold_simps comp_apply Cons)
    apply (cases p)
    apply (simp add: post_to_source_def postMessage_def split: option.splits)
    done
qed

section \<open>Normal forms of the operations\<close>

text \<open>Each operation is the state it started from with its fields updated once.\<close>

lemma bc_fold:
  "js_broadcastToIframes = broadcast JS"
  "ts_broadcastToIframes = broadcast TS"
  "sv_broadcast = broadcast Svelte"
  by (simp_all add: broadcast_def)

lemma broadcast_nf:
  "broadcast cp k v s =
     s\<lparr>posted := posted s @ bc_posts k v s, console := console s @ bc_console cp s\<rparr>"
  by (cases cp)
     (simp_all add: broadcast_def js_broadcastToIframes_def ts_broadcastToIframes_def
        sv_broadcast_def sv_broadcastToIframes_def Let_def fold_post_iframes bc_posts_def
        bc_console_def console_log_def)

lemma bc_posts_logs [simp]:
  "bc_posts k v (s\<lparr>posted := p\<rparr>) = bc_posts k v s"
  "bc_posts k v (s\<lparr>console := l\<rparr>) = bc_posts k v s"
  "bc_posts k v (s\<lparr>calls := c\<rparr>) = bc_posts k v s"
  "bc_posts k v (s\<lparr>atoms := m\<rparr>) = bc_posts k v s"
  "bc_posts k v (s\<lparr>nextClosure := n\<rparr>) = bc_posts k v s"
  "bc_posts k v (s\<lparr>generation := g\<rparr>) = bc_posts k v s"
  by (simp_all add: bc_posts_def)

lemma bc_console_logs [simp]:
  "bc_console cp (s\<lparr>posted := p\<rparr>) = bc_console cp s"
  "bc_console cp (s\<lparr>console := l\<rparr>) = bc_console cp s"
  "bc_console cp (s\<lparr>calls := c\<rparr>) = bc_console cp s"
  "bc_console cp (s\<lparr>atoms := m\<rparr>) = bc_console cp s"
  "bc_console cp (s\<lparr>nextClosure := n\<rparr>) = bc_console cp s"
  "bc_console cp (s\<lparr>generation := g\<rparr>) = bc_console cp s"
  by (simp_all add: bc_console_def)

lemma notify_nf:
  "fold (run_subscriber (broadcast cp) k v) subs s =
     s\<lparr>posted := posted s @ notify_posts subs v s,
       console := console s @ notify_console cp subs s,
       calls := calls s @ notify_calls k v subs\<rparr>"
proof (induction subs arbitrary: s)
  case Nil
  show ?case by (simp add: notify_posts_def notify_console_def notify_calls_def)
next
  case (Cons sub subs)
  show ?case
    apply (simp only: fold_simps comp_apply Cons)
    apply (cases sub)
    apply (simp_all add: run_subscriber_def broadcast_nf invoke_def notify_posts_def
        notify_console_def notify_calls_def)
    done
qed

lemma atom_set_nf:
  "atom_set (broadcast cp) k v s =
     (case map_of (atoms s) k of
        None \<Rightarrow> s
      | Some a \<Rightarrow>
          s\<lparr>atoms := map_set k (a\<lparr>val := v\<rparr>) (atoms s),
            posted := posted s @ notify_posts (subscribers a) v s,
            console := console s @ notify_console cp (subscribers a) s,
            calls := calls s @ notify_calls k v (subscribers a)\<rparr>)"
  by (simp add: atom_set_def notify_nf notify_posts_def notify_console_def split: option.splits)

lemma notify_logs [simp]:
  "notify_posts subs v (s\<lparr>posted := p\<rparr>) = notify_posts subs v s"
  "notify_posts subs v (s\<lparr>console := l\<rparr>) = notify_posts subs v s"
  "notify_posts subs v (s\<lparr>calls := c\<rparr>) = notify_posts subs v s"
  "notify_posts subs v (s\<lparr>atoms := m\<rparr>) = notify_posts subs v s"
  "notify_posts subs v (s\<lparr>nextClosure := n\<rparr>) = notify_posts subs v s"
  "notify_console cp subs (s\<lparr>posted := p\<rparr>) = notify_console cp subs s"
  "notify_console cp subs (s\<lparr>console := l\<rparr>) = notify_console cp subs s"
  "notify_console cp subs (s\<lparr>calls := c\<rparr>) = notify_console cp subs s"
  "notify_console cp subs (s\<lparr>atoms := m\<rparr>) = notify_console cp subs s"
  "notify_console cp subs (s\<lparr>nextClosure := n\<rparr>) = notify_console cp subs s"
  "notify_posts subs v (s\<lparr>generation := g\<rparr>) = notify_posts subs v s"
  "notify_console cp subs (s\<lparr>generation := g\<rparr>) = notify_console cp subs s"
  by (simp_all add: notify_posts_def notify_console_def cong: subscriber.case_cong)

lemma run_subscriber_nf:
  "run_subscriber (broadcast cp) k v fn s =
     s\<lparr>posted := posted s @ notify_posts [fn] v s,
       console := console s @ notify_console cp [fn] s,
       calls := calls s @ notify_calls k v [fn]\<rparr>"
  by (cases fn)
     (simp_all add: run_subscriber_def broadcast_nf invoke_def notify_posts_def
        notify_console_def notify_calls_def)

lemma atom_subscribe_nf:
  "atom_subscribe (broadcast cp) k fn s =
     (case map_of (atoms s) k of
        None \<Rightarrow> s
      | Some a \<Rightarrow>
          s\<lparr>atoms := map_set k (a\<lparr>subscribers := set_add fn (subscribers a)\<rparr>) (atoms s),
            posted := posted s @ notify_posts [fn] (val a) s,
            console := console s @ notify_console cp [fn] s,
            calls := calls s @ notify_calls k (val a) [fn]\<rparr>)"
  by (simp add: atom_subscribe_def run_subscriber_nf split: option.splits)

lemma sv_sync_fold:
  "fold (\<lambda>(k, a) s'. sv_log txt (postMessage (ToWindow w) (AtomSync k (val a) (clock s')) s')) m s =
     s\<lparr>posted := posted s @
          map (\<lambda>(k, a). (ToWindow w, targetOrigin s, AtomSync k (val a) (clock s))) m,
       console := console s @ (if debug s then replicate (length m) (ConsoleLog txt) else [])\<rparr>"
proof (induction m arbitrary: s)
  case Nil
  show ?case by simp
next
  case (Cons p m)
  show ?case
    apply (simp only: fold_simps comp_apply Cons)
    apply (cases p)
    apply (simp add: sv_log_def postMessage_def console_log_def replicate_append_same)
    done
qed

lemma sv_syncAllToIframe_nf:
  "sv_syncAllToIframe e s =
     (case contentWindow s e of
        None \<Rightarrow> s
      | Some w \<Rightarrow>
          s\<lparr>posted := posted s @ sync_posts w s,
            console := console s @
              (if debug s then replicate (length (atoms s)) (ConsoleLog ''Synced to iframe'')
               else [])\<rparr>)"
  by (simp add: sv_syncAllToIframe_def sv_sync_fold sync_posts_def split: option.splits)

lemma sync_posts_logs [simp]:
  "sync_posts w (s\<lparr>posted := p\<rparr>) = sync_posts w s"
  "sync_posts w (s\<lparr>console := l\<rparr>) = sync_posts w s"
  "sync_posts w (s\<lparr>calls := c\<rparr>) = sync_posts w s"
  by (simp_all add: sync_posts_def)

lemma listener_nf:
  "listener cp e s =
     s\<lparr>posted := posted s @ (case contentWindow s e of None \<Rightarrow> [] | Some w \<Rightarrow> sync_posts w s),
       console := console s @ listener_console cp e s\<rparr>"
proof (cases cp)
  case JS
  then show ?thesis
    by (simp add: listener_def js_syncToIframe_def fold_sync_iframe sync_posts_def
        listener_console_def Let_def console_log_def split: option.splits)
next
  case TS
  then show ?thesis
    by (simp add: listener_def ts_syncToIframe_def fold_sync_iframe sync_posts_def
        listener_console_def Let_def console_log_def split: option.splits)
next
  case Svelte
  then show ?thesis
    by (simp add: listener_def sv_syncAllToIframe_nf listener_console_def sv_log_def
        console_log_def split: option.splits)
qed

lemma listener_simps:
  "js_syncToIframe = listener JS"
  "ts_syncToIframe = listener TS"
  "(\<lambda>e s'. sv_syncAllToIframe e (sv_log ''Iframe loaded, syncing all atoms'' s')) = listener Svelte"
  by (simp_all add: listener_def fun_eq_iff)

lemma load_listener: "load cp f s = fold (listener cp) (filter (\<lambda>e. e = f) (loadListeners s)) s"
  by (cases cp) (simp_all add: load_def js_load_def ts_load_def sv_load_def listener_simps)

lemma listener_logs [simp]:
  "listener_console cp e (s\<lparr>posted := p\<rparr>) = listener_console cp e s"
  "listener_console cp e (s\<lparr>console := l\<rparr>) = listener_console cp e s"
  by (simp_all add: listener_console_def cong: copy.case_cong option.case_cong)

lemma funpow_listener:
  "(listener cp f ^^ n) s =
     s\<lparr>posted := posted s @
          concat (replicate n (case contentWindow s f of None \<Rightarrow> [] | Some w \<Rightarrow> sync_posts w s)),
       console := console s @ concat (replicate n (listener_console cp f s))\<rparr>"
proof (induction n arbitrary: s)
  case 0
  show ?case by simp
next
  case (Suc n)
  show ?case
    apply (simp only: funpow_Suc_right comp_apply Suc)
    apply (simp add: listener_nf cong: option.case_cong)
    done
qed

lemma filter_eq_replicate: "filter (\<lambda>e. e = f) xs = replicate (count_list xs f) f"
  by (induction xs) auto

lemma load_nf:
  "load cp f s =
     s\<lparr>posted := posted s @
          concat (replicate (count_list (loadListeners s) f)
                    (case contentWindow s f of None \<Rightarrow> [] | Some w \<Rightarrow> sync_posts w s)),
       console := console s @
          concat (replicate (count_list (loadListeners s) f) (listener_console cp f s))\<rparr>"
  by (simp add: load_listener filter_eq_replicate funpow_listener)



lemma map_set_map_set: "map_set k v (map_set k v' m) = map_set k v m"
  by (induction m) auto

lemma registerAtom_nf:
  "state_of (registerAtom cp k v s) =
     (if cp \<noteq> JS \<and> map_has k (atoms s) then
        (if cp = Svelte then sv_log ''Atom already registered'' s else s)
      else if cp = Svelte \<or> isRoot s then
        s\<lparr>atoms := map_set k \<lparr>val = v, subscribers = [Broadcast k]\<rparr> (atoms s),
          posted := posted s @ bc_posts k v s,
          console := console s @
            (if debug s then
               (if cp = Svelte then [ConsoleLog ''Registered atom'']
                else [ConsoleLog ''[IframeStateSync] Broadcasted'',
                      ConsoleLog ''[IframeStateSync] Registered atom''])
             else []),
          generation := (if cp = JS then (generation s)(k := Suc (generation s k))
                         else generation s)\<rparr>
      else
        s\<lparr>atoms := map_set k \<lparr>val = v, subscribers = []\<rparr> (atoms s),
          console := console s @
            (if debug s then [ConsoleLog ''[IframeStateSync] Registered atom''] else []),
          generation := (if cp = JS then (generation s)(k := Suc (generation s k))
                         else generation s)\<rparr>)"
  by (cases cp)
     (simp_all add: registerAtom_def js_registerAtom_def ts_registerAtom_def sv_registerAtom_def
        bc_fold atom_subscribe_nf map_of_map_set map_set_map_set createAtom_def set_add_def
        notify_posts_def notify_console_def notify_calls_def bc_console_def Let_def
        console_log_def sv_log_def)

lemma threw_registerAtom: "threw (registerAtom cp k v s) = (cp = TS \<and> map_has k (atoms s))"
  by (cases cp) (simp_all add: registerAtom_def ts_registerAtom_def Let_def)

section \<open>Registering a key twice\<close>

lemma first_registration:
  assumes "cp \<noteq> JS" "\<not> map_has k (atoms s)"
  shows "atom_get k (state_of (registerAtom cp k v s)) = Some v"
    and "map_has k (atoms (state_of (registerAtom cp k v s)))"
  using assms
  by (simp_all add: registerAtom_nf atom_get_def map_has_def map_of_map_set)

lemma second_registration:
  assumes "map_has k (atoms s)"
  shows "registerAtom TS k v s = Threw (AlreadyRegistered k) s"
    and "registerAtom Svelte k v s = Returned () (sv_log ''Atom already registered'' s)"
    and "atoms (sv_log ''Atom already registered'' s) = atoms s"
  using assms
  by (simp_all add: registerAtom_def ts_registerAtom_def sv_registerAtom_def sv_log_def
      console_log_def)

text \<open>The JavaScript copy has no check: a second registration replaces the cell.\<close>

lemma js_second_registration_replaces:
  "atom_get k (js_registerAtom k v2 (js_registerAtom k v1 s)) = Some v2"
  using registerAtom_nf[of JS k v2 "js_registerAtom k v1 s"]
  by (simp add: registerAtom_def atom_get_def map_of_map_set split: if_splits)

text \<open>
  C3, as the spec states it: for every coordinator, a second \<^verbatim>\<open>registerAtom\<close> with a key
  that exists raises and leaves the value of the first registration unchanged.
  The Svelte copy does not raise: its guard logs and returns. Here a coordinator of the
  Svelte copy registers \<^verbatim>\<open>"x"\<close> twice, and the second call returns.
\<close>

theorem duplicate_registration_svelte_returns:
  "\<not> threw (registerAtom Svelte ''x'' (Num 2)
       (state_of (registerAtom Svelte ''x'' (Num 1) (constructor Svelte no_options top_window))))"
  by (simp add: threw_registerAtom)

text \<open>
  C3, amended: in the TypeScript and Svelte copies, when a first \<^verbatim>\<open>registerAtom\<close> has
  created the cell for a key with the value \<open>v1\<close>, a second \<^verbatim>\<open>registerAtom\<close> with that key
  leaves every cell as it is, the value \<open>v1\<close> included; in the TypeScript copy the second
  call throws (before it changes anything), in the Svelte copy it returns, having written
  at most a debug line. (The JavaScript copy, which has no check and replaces the cell, is
  not part of the statement.)
\<close>

theorem duplicate_registration:
  "cp \<noteq> JS \<longrightarrow> \<not> map_has k (atoms s) \<longrightarrow>
     (let s1 = state_of (registerAtom cp k v1 s);
          second = registerAtom cp k v2 s1
      in \<not> threw (registerAtom cp k v1 s)
       \<and> atom_get k s1 = Some v1
       \<and> (cp = TS \<longrightarrow> second = Threw (AlreadyRegistered k) s1)
       \<and> (cp = Svelte \<longrightarrow> second = Returned () (sv_log ''Atom already registered'' s1))
       \<and> atoms (state_of second) = atoms s1
       \<and> atom_get k (state_of second) = Some v1)"
proof (intro impI)
  assume cp: "cp \<noteq> JS" and fresh: "\<not> map_has k (atoms s)"
  define s1 where "s1 = state_of (registerAtom cp k v1 s)"
  have v1: "atom_get k s1 = Some v1" and has: "map_has k (atoms s1)"
    unfolding s1_def using first_registration[OF cp fresh] by simp_all
  have ts: "cp = TS \<Longrightarrow> registerAtom cp k v2 s1 = Threw (AlreadyRegistered k) s1"
    using second_registration(1)[OF has] by simp
  have sv: "cp = Svelte \<Longrightarrow>
      registerAtom cp k v2 s1 = Returned () (sv_log ''Atom already registered'' s1)"
    using second_registration(2)[OF has] by simp
  have same: "atoms (state_of (registerAtom cp k v2 s1)) = atoms s1"
    using cp ts sv second_registration(3)[OF has] by (cases cp) simp_all
  have "atom_get k (state_of (registerAtom cp k v2 s1)) = Some v1"
    using same v1 by (simp add: atom_get_def)
  with v1 ts sv same fresh
  show "let s1 = state_of (registerAtom cp k v1 s);
            second = registerAtom cp k v2 s1
        in \<not> threw (registerAtom cp k v1 s)
         \<and> atom_get k s1 = Some v1
         \<and> (cp = TS \<longrightarrow> second = Threw (AlreadyRegistered k) s1)
         \<and> (cp = Svelte \<longrightarrow> second = Returned () (sv_log ''Atom already registered'' s1))
         \<and> atoms (state_of second) = atoms s1
         \<and> atom_get k (state_of second) = Some v1"
    by (simp add: Let_def s1_def threw_registerAtom)
qed

theorem duplicate_registration_witness:
  "TS \<noteq> JS
   \<and> \<not> map_has ''x'' (atoms (constructor TS no_options top_window))
   \<and> threw (registerAtom TS ''x'' (Num 2)
              (state_of (registerAtom TS ''x'' (Num 1) (constructor TS no_options top_window))))
   \<and> atom_get ''x''
        (state_of (registerAtom TS ''x'' (Num 2)
           (state_of (registerAtom TS ''x'' (Num 1) (constructor TS no_options top_window)))))
       = Some (Num 1)"
  using duplicate_registration[of TS "''x''" "constructor TS no_options top_window" "Num 1" "Num 2"]
  by (simp add: Let_def constructor_def ts_constructor_def no_options_def top_window_def
      map_has_def)

lemma new_log_append [simp]:
  "new_posted s (s'\<lparr>posted := posted s @ xs\<rparr>) = xs"
  "new_console s (s'\<lparr>console := console s @ ys\<rparr>) = ys"
  "new_calls s (s'\<lparr>calls := calls s @ zs\<rparr>) = zs"
  by (simp_all add: new_posted_def new_console_def new_calls_def)

lemma new_log_other [simp]:
  "new_posted s (s'\<lparr>console := l\<rparr>) = new_posted s s'"
  "new_posted s (s'\<lparr>calls := c\<rparr>) = new_posted s s'"
  "new_posted s (s'\<lparr>atoms := m\<rparr>) = new_posted s s'"
  "new_console s (s'\<lparr>posted := p\<rparr>) = new_console s s'"
  "new_console s (s'\<lparr>calls := c\<rparr>) = new_console s s'"
  "new_console s (s'\<lparr>atoms := m\<rparr>) = new_console s s'"
  "new_calls s (s'\<lparr>posted := p\<rparr>) = new_calls s s'"
  "new_calls s (s'\<lparr>console := l\<rparr>) = new_calls s s'"
  "new_calls s (s'\<lparr>atoms := m\<rparr>) = new_calls s s'"
  "new_posted s s = []" "new_console s s = []" "new_calls s s = []"
  by (simp_all add: new_posted_def new_console_def new_calls_def)

section \<open>Answering a request for the state\<close>

lemma request_nf:
  assumes "data ev = AtomSyncRequest t" "cp \<noteq> Svelte"
  shows "setupMessageListener cp ev s =
     (if isRoot s then
        s\<lparr>posted := posted s @ (case source ev of None \<Rightarrow> [] | Some w \<Rightarrow> sync_posts w s),
          console := console s @
            (if debug s then [ConsoleLog ''[IframeStateSync] Received state request from child'']
             else [])\<rparr>
      else s)"
  using assms
  by (cases cp)
     (simp_all add: setupMessageListener_def js_setupMessageListener_def
        ts_setupMessageListener_def fold_sync_source sync_posts_def console_log_def Let_def
        split: option.splits)

lemma sv_request_nf:
  assumes "data ev = AtomSyncRequest t"
  shows "setupMessageListener Svelte ev s =
     (case find (\<lambda>iframe. contentWindow s iframe = source ev) (iframes s) of
        None \<Rightarrow> sv_log ''Received sync request from iframe'' s
      | Some e \<Rightarrow> sv_syncAllToIframe e (sv_log ''Received sync request from iframe'' s))"
  using assms
  by (simp add: setupMessageListener_def sv_setupMessageListener_def Let_def sv_log_def
      console_log_def split: option.splits)

lemma sv_request_posts:
  assumes "data ev = AtomSyncRequest t" "source ev = Some w"
  shows "new_posted s (setupMessageListener Svelte ev s) =
     (if \<exists>e \<in> set (iframes s). contentWindow s e = Some w then sync_posts w s else [])"
proof (cases "find (\<lambda>iframe. contentWindow s iframe = source ev) (iframes s)")
  case None
  then have "\<not> (\<exists>e \<in> set (iframes s). contentWindow s e = Some w)"
    using assms(2) by (simp add: find_None_iff)
  with None show ?thesis
    by (simp add: sv_request_nf[OF assms(1)] sv_log_def console_log_def)
next
  case (Some e)
  then have e: "e \<in> set (iframes s)" "contentWindow s e = Some w"
    using assms(2) by (auto simp: find_Some_iff)
  then have "\<exists>e \<in> set (iframes s). contentWindow s e = Some w" by blast
  with Some e show ?thesis
    by (simp add: sv_request_nf[OF assms(1)] sv_syncAllToIframe_nf sv_log_def console_log_def)
qed

text \<open>
  C4, amended: on an \<^verbatim>\<open>atom-sync-request\<close> from the window \<open>w\<close>, a root coordinator of
  the JavaScript or TypeScript copy posts one \<^verbatim>\<open>atom-sync\<close> message for each registered
  cell, with the cell's current value, to \<open>w\<close> itself (\<^verbatim>\<open>event.source\<close>), whatever the
  set of registered iframes is. The coordinator of the Svelte copy looks \<open>w\<close> up among the
  windows of the registered iframes: it posts the same messages to \<open>w\<close> when \<open>w\<close> is the
  window of a registered iframe, and nothing otherwise.
\<close>

theorem reply_to_request:
  "data ev = AtomSyncRequest t \<longrightarrow> source ev = Some w \<longrightarrow>
     (cp \<noteq> Svelte \<longrightarrow> isRoot s \<longrightarrow>
        new_posted s (setupMessageListener cp ev s) = sync_posts w s)
   \<and> new_posted s (setupMessageListener Svelte ev s) =
        (if \<exists>e \<in> set (iframes s). contentWindow s e = Some w then sync_posts w s else [])"
  by (simp add: sv_request_posts request_nf)

lemma one_cell_simps:
  "one_cell JS = top_window\<lparr>atoms := [(''x'', \<lparr>val = Num 1, subscribers = [Broadcast ''x'']\<rparr>)],
      targetOrigin := ''*'', debug := True, isRoot := True,
      console := [ConsoleLog ''[IframeStateSync] Initialized'',
                  ConsoleLog ''[IframeStateSync] Broadcasted'',
                  ConsoleLog ''[IframeStateSync] Registered atom''],
      generation := (\<lambda>k. 0)(''x'' := Suc 0)\<rparr>"
  "one_cell TS = top_window\<lparr>atoms := [(''x'', \<lparr>val = Num 1, subscribers = [Broadcast ''x'']\<rparr>)],
      targetOrigin := ''*'', isRoot := True\<rparr>"
  "one_cell Svelte = top_window\<lparr>atoms := [(''x'', \<lparr>val = Num 1, subscribers = [Broadcast ''x'']\<rparr>)],
      targetOrigin := ''*''\<rparr>"
  by (simp_all add: one_cell_def run_def step_def registerAtom_nf constructor_def
      js_constructor_def ts_constructor_def sv_constructor_def no_options_def top_window_def
      map_has_def bc_posts_def List.map_filter_simps console_log_def)

theorem reply_to_request_witness:
  "data \<lparr>data = AtomSyncRequest 0, source = Some 7\<rparr> = AtomSyncRequest 0
   \<and> source \<lparr>data = AtomSyncRequest 0, source = Some 7\<rparr> = Some 7
   \<and> TS \<noteq> Svelte \<and> isRoot (one_cell TS)
   \<and> new_posted (one_cell TS)
        (setupMessageListener TS \<lparr>data = AtomSyncRequest 0, source = Some 7\<rparr> (one_cell TS))
       = [(ToWindow 7, ''*'', AtomSync ''x'' (Num 1) 0)]"
  using reply_to_request[of "\<lparr>data = AtomSyncRequest 0, source = Some 7\<rparr>" 0 7 TS "one_cell TS"]
  by (simp add: one_cell_simps sync_posts_def top_window_def)

text \<open>
  C4, as the spec states it: the reply to a request goes to the window the request came
  from, whether or not that window belongs to a registered iframe. In the Svelte copy a
  coordinator with one cell and no registered iframe posts nothing on a request from the
  window 7.
\<close>

theorem request_from_unregistered_window_svelte:
  "atoms (one_cell Svelte) \<noteq> []
   \<and> new_posted (one_cell Svelte)
        (setupMessageListener Svelte \<lparr>data = AtomSyncRequest 0, source = Some 7\<rparr>
           (one_cell Svelte)) = []"
  by (simp add: one_cell_simps sv_request_posts[of _ 0 7] top_window_def)


lemma top_window_fields [simp]:
  "atoms top_window = []" "iframes top_window = []" "\<not> debug top_window"
  "selfIsTop top_window" "contentWindow top_window e = Some (100 + e)"
  "loadListeners top_window = []" "posted top_window = []" "console top_window = []"
  "calls top_window = []" "clock top_window = 0"
  by (simp_all add: top_window_def)

section \<open>Looking up a key\<close>

text \<open>
  C5, amended: \<^verbatim>\<open>getAtom(key)\<close> of the JavaScript and TypeScript coordinators throws for
  a key with no cell, and \<^verbatim>\<open>getAtomValue(key)\<close> of their child client throws for a key that
  was not configured; the state after the throw is the state before the call, so no cell
  was created. \<^verbatim>\<open>getValue(key)\<close> of the child client of the Svelte demo does not throw for
  a key it has no value for: it returns \<^verbatim>\<open>undefined\<close>, and it too leaves the client as it
  is; so does \<^verbatim>\<open>getValue(key)\<close> of the Svelte coordinator for a key with no cell.
\<close>

theorem lookup_unregistered:
  "(map_of (atoms s) k = None \<longrightarrow>
      js_getAtom k s = Threw (NotFound k) s \<and> ts_getAtom k s = Threw (NotFound k) s
    \<and> sv_getValue k s = Undefined)
   \<and> (k \<notin> set (client_atoms c) \<longrightarrow> getAtomValue k c = Threw (NotFound k) c)
   \<and> (map_of (c_state ch) k = None \<longrightarrow> getValue k ch = Returned Undefined ch)"
  by (simp add: js_getAtom_def ts_getAtom_def sv_getValue_def getAtomValue_def getValue_def
      state_get_def)

lemma createChildClient_fields [simp]:
  "c_state (sv_createChildClient opts env) = []"
  "c_subscribers (sv_createChildClient opts env) = []"
  "c_calls (sv_createChildClient opts env) = c_calls env"
  "c_listening (sv_createChildClient opts env)"
  by (simp_all add: sv_createChildClient_def requestSync_def c_log_def c_postToParent_def)

theorem lookup_unregistered_witness:
  "map_of (atoms (one_cell TS)) ''missing'' = None
   \<and> ''missing'' \<notin> set (client_atoms \<lparr>sync = one_cell TS, client_atoms = [''x'']\<rparr>)
   \<and> map_of (c_state (sv_createChildClient no_options embedded_window)) ''missing'' = None
   \<and> threw (ts_getAtom ''missing'' (one_cell TS))
   \<and> threw (js_getAtom ''missing'' (one_cell TS))
   \<and> threw (getAtomValue ''missing'' \<lparr>sync = one_cell TS, client_atoms = [''x'']\<rparr>)
   \<and> \<not> threw (getValue ''missing'' (sv_createChildClient no_options embedded_window))"
  using lookup_unregistered[of "one_cell TS" "''missing''"
      "\<lparr>sync = one_cell TS, client_atoms = [''x'']\<rparr>"
      "sv_createChildClient no_options embedded_window"]
  by (simp add: one_cell_simps top_window_def)

text \<open>
  C5, as the spec states it: the child client's value lookup raises for a key that was
  never registered. \<^verbatim>\<open>getValue("missing")\<close> on a new child client of the Svelte demo
  returns \<^verbatim>\<open>undefined\<close>.
\<close>

theorem getValue_missing_returns:
  "getValue ''missing'' (sv_createChildClient no_options embedded_window) =
     Returned Undefined (sv_createChildClient no_options embedded_window)"
  by (simp add: getValue_def state_get_def)

section \<open>Child-only operations in a root window\<close>

text \<open>
  C8, amended: in a root window, \<^verbatim>\<open>sendToParent\<close> and \<^verbatim>\<open>requestStateFromParent\<close> of the
  JavaScript and TypeScript copies return without throwing and without posting a message
  or touching a cell, a registered iframe or a listener; they write a warning to the
  console when the \<^verbatim>\<open>debug\<close> option is on, and nothing when it is off.
\<close>

theorem child_only_in_root:
  "isRoot s \<longrightarrow>
     js_sendToParent k v s =
       (if debug s
        then console_warn ''[IframeStateSync] Cannot send to parent from root window'' s else s)
   \<and> ts_sendToParent k v s =
       (if debug s
        then console_warn ''[IframeStateSync] Cannot send to parent from root window'' s else s)
   \<and> js_requestStateFromParent s =
       (if debug s
        then console_warn ''[IframeStateSync] Cannot request state from parent in root window'' s
        else s)
   \<and> ts_requestStateFromParent s =
       (if debug s
        then console_warn ''[IframeStateSync] Cannot request state from parent in root window'' s
        else s)
   \<and> (\<forall>txt. posted (console_warn txt s) = posted s
            \<and> atoms (console_warn txt s) = atoms s
            \<and> iframes (console_warn txt s) = iframes s
            \<and> loadListeners (console_warn txt s) = loadListeners s
            \<and> new_console s (console_warn txt s) = [ConsoleWarn txt])"
  by (simp add: js_sendToParent_def ts_sendToParent_def js_requestStateFromParent_def
      ts_requestStateFromParent_def console_warn_def)

theorem child_only_in_root_witness:
  "isRoot (one_cell JS)
   \<and> js_sendToParent ''x'' (Num 2) (one_cell JS) =
       console_warn ''[IframeStateSync] Cannot send to parent from root window'' (one_cell JS)
   \<and> posted (js_sendToParent ''x'' (Num 2) (one_cell JS)) = posted (one_cell JS)"
proof -
  have r: "isRoot (one_cell JS)" and d: "debug (one_cell JS)"
    by (simp_all add: one_cell_simps)
  have "js_sendToParent ''x'' (Num 2) (one_cell JS) =
      (if debug (one_cell JS)
       then console_warn ''[IframeStateSync] Cannot send to parent from root window'' (one_cell JS)
       else one_cell JS)"
    and "posted (console_warn ''[IframeStateSync] Cannot send to parent from root window''
           (one_cell JS)) = posted (one_cell JS)"
    using child_only_in_root[of "one_cell JS" "''x''" "Num 2"] r by blast+
  with r d show ?thesis by simp
qed

text \<open>
  C8, as the spec states it: a child-only operation in a root window logs a warning.
  A root coordinator of the TypeScript copy built with no options has \<^verbatim>\<open>debug\<close> off, and
  its \<^verbatim>\<open>sendToParent\<close> writes nothing to the console.
\<close>

theorem sendToParent_in_root_without_debug:
  "isRoot (one_cell TS)
   \<and> ts_sendToParent ''x'' (Num 2) (one_cell TS) = one_cell TS
   \<and> new_console (one_cell TS) (ts_sendToParent ''x'' (Num 2) (one_cell TS)) = []"
  by (simp add: one_cell_simps ts_sendToParent_def)

section \<open>The default of the debug option\<close>

text \<open>
  C7: a coordinator built without a \<^verbatim>\<open>debug\<close> option does not log. The JavaScript copy
  merges the options over \<^verbatim>\<open>{targetOrigin: '*', debug: true}\<close>: built with no options it
  has \<^verbatim>\<open>debug\<close> on and its constructor already writes a line to the console. The
  TypeScript and Svelte copies start with \<^verbatim>\<open>debug\<close> off.
\<close>

theorem js_debug_default:
  "debug (constructor JS no_options w)
   \<and> new_console w (constructor JS no_options w) = [ConsoleLog ''[IframeStateSync] Initialized'']
   \<and> \<not> debug (constructor TS no_options w) \<and> \<not> debug (constructor Svelte no_options w)"
  by (simp add: constructor_def js_constructor_def ts_constructor_def sv_constructor_def
      no_options_def console_log_def)


section \<open>Subscribing\<close>

lemma cell_subscribe_nf:
  assumes "map_of (atoms s) k = Some a"
  shows "cell_subscribe cp k cb s =
     s\<lparr>atoms := map_set k (a\<lparr>subscribers := set_add (subscription cp s cb) (subscribers a)\<rparr>)
                 (atoms s),
       calls := calls s @ [(k, cb, val a)],
       nextClosure := (if cp = Svelte then Suc (nextClosure s) else nextClosure s)\<rparr>"
  using assms
  by (cases cp)
     (simp_all add: cell_subscribe_def sv_subscribe_def bc_fold atom_subscribe_nf
        subscription_def notify_posts_def notify_console_def notify_calls_def)

lemma atom_unsubscribe_nf:
  assumes "map_of (atoms s) k = Some a"
  shows "atom_unsubscribe k fn s =
     s\<lparr>atoms := map_set k (a\<lparr>subscribers := removeAll fn (subscribers a)\<rparr>) (atoms s)\<rparr>"
  using assms by (simp add: atom_unsubscribe_def set_delete_def)

text \<open>The function of the cell that is under the key when it is called.\<close>

lemma js_unsubscribe_current [simp]: "js_unsubscribe k (generation s k) fn s = atom_unsubscribe k fn s"
  by (simp add: js_unsubscribe_def)

lemma cell_subscribe_effect:
  fixes cp cb
  assumes "map_of (atoms s) k = Some a"
  defines "s' \<equiv> cell_subscribe cp k cb s"
  shows "map_of (atoms s') k =
           Some (a\<lparr>subscribers := set_add (subscription cp s cb) (subscribers a)\<rparr>)"
    and "subscription cp s cb \<in> set (set_add (subscription cp s cb) (subscribers a))"
    and "new_calls s s' = [(k, cb, val a)]"
    and "new_posted s s' = []"
    and "map_of (atoms (atom_unsubscribe k (subscription cp s cb) s')) k =
           Some (a\<lparr>subscribers := removeAll (subscription cp s cb) (subscribers a)\<rparr>)"
  unfolding s'_def
  by (simp_all add: cell_subscribe_nf[OF assms(1)] map_of_map_set set_add_def
      atom_unsubscribe_def set_delete_def new_calls_def new_posted_def)

lemma subscribe_nf:
  "subscribe k cb c =
     c\<lparr>c_subscribers :=
         map_set k (set_add cb (case map_of (c_subscribers c) k of None \<Rightarrow> [] | Some xs \<Rightarrow> xs))
           (c_subscribers c),
       c_console := c_console c @ (if c_debug c then [ConsoleLog ''Subscribed to''] else []),
       c_calls := c_calls c @
         (if state_get k c \<noteq> Undefined then [(k, cb, state_get k c)] else [])\<rparr>"
  by (simp add: subscribe_def Let_def map_has_def map_of_map_set map_set_map_set c_log_def
      c_invoke_def state_get_def split: option.splits)

lemma unsubscribe_nf:
  "unsubscribe k cb c =
     c\<lparr>c_subscribers :=
         (case map_of (c_subscribers c) k of
            None \<Rightarrow> c_subscribers c
          | Some subs \<Rightarrow>
              if removeAll cb subs = [] then map_delete k (c_subscribers c)
              else map_set k (removeAll cb subs) (c_subscribers c)),
       c_console := c_console c @ (if c_debug c then [ConsoleLog ''Unsubscribed from''] else [])\<rparr>"
  by (simp add: unsubscribe_def Let_def c_log_def set_delete_def split: option.splits)

lemma unsubscribed:
  "map_of (c_subscribers (unsubscribe k cb c)) k = Some subs \<Longrightarrow> cb \<notin> set subs"
  by (auto simp: unsubscribe_nf map_of_map_set map_of_map_delete split: option.splits if_splits)

lemma child_subscribe_effect:
  fixes k cb c
  defines "c' \<equiv> subscribe k cb c"
  shows "\<exists>subs. map_of (c_subscribers c') k = Some subs \<and> cb \<in> set subs"
    and "c_new_calls c c' = (if state_get k c \<noteq> Undefined then [(k, cb, state_get k c)] else [])"
    and "\<forall>subs. map_of (c_subscribers (unsubscribe k cb c')) k = Some subs \<longrightarrow> cb \<notin> set subs"
  unfolding c'_def
  by (simp_all add: subscribe_nf map_of_map_set set_add_def c_new_calls_def unsubscribed)

text \<open>
  C6, amended: \<^verbatim>\<open>subscribe(callback)\<close> adds the callback to the subscriber set of the cell
  (in the Svelte coordinator, a new closure around it) and returns a function that removes
  it again. A cell of a coordinator calls the callback once, at once, with the cell's
  current value. The child client of the Svelte demo calls it at once only when it holds
  a value other than \<^verbatim>\<open>undefined\<close> for the key, and then with that value.
\<close>

theorem subscribe_effect:
  "(map_of (atoms s) k = Some a \<longrightarrow>
      (let fn = subscription cp s cb; s' = cell_subscribe cp k cb s
       in map_of (atoms s') k = Some (a\<lparr>subscribers := set_add fn (subscribers a)\<rparr>)
        \<and> fn \<in> set (set_add fn (subscribers a))
        \<and> new_calls s s' = [(k, cb, val a)]
        \<and> map_of (atoms (atom_unsubscribe k fn s')) k =
            Some (a\<lparr>subscribers := removeAll fn (subscribers a)\<rparr>)))
   \<and> (let c' = subscribe k cb c
      in (\<exists>subs. map_of (c_subscribers c') k = Some subs \<and> cb \<in> set subs)
       \<and> c_new_calls c c' =
           (if state_get k c \<noteq> Undefined then [(k, cb, state_get k c)] else [])
       \<and> (\<forall>subs. map_of (c_subscribers (unsubscribe k cb c')) k = Some subs \<longrightarrow> cb \<notin> set subs))"
  using cell_subscribe_effect[where s=s and k=k and a=a and cp=cp and cb=cb]
    child_subscribe_effect[where k=k and cb=cb and c=c]
  by (simp add: Let_def)

theorem subscribe_effect_witness:
  "map_of (atoms (one_cell JS)) ''x'' = Some \<lparr>val = Num 1, subscribers = [Broadcast ''x'']\<rparr>
   \<and> new_calls (one_cell JS) (cell_subscribe JS ''x'' 5 (one_cell JS)) = [(''x'', 5, Num 1)]
   \<and> state_get ''x'' (setValue ''x'' (Num 3) (sv_createChildClient no_options embedded_window))
       \<noteq> Undefined
   \<and> c_new_calls (setValue ''x'' (Num 3) (sv_createChildClient no_options embedded_window))
        (subscribe ''x'' 5 (setValue ''x'' (Num 3) (sv_createChildClient no_options embedded_window)))
       = [(''x'', 5, Num 3)]"
proof -
  have a: "map_of (atoms (one_cell JS)) ''x'' = Some \<lparr>val = Num 1, subscribers = [Broadcast ''x'']\<rparr>"
    by (simp add: one_cell_simps)
  have b: "state_get ''x'' (setValue ''x'' (Num 3) (sv_createChildClient no_options embedded_window))
      = Num 3"
    by (simp add: state_get_def setValue_def Let_def c_log_def c_postToParent_def)
  show ?thesis
    using subscribe_effect[of "one_cell JS" "''x''" "\<lparr>val = Num 1, subscribers = [Broadcast ''x'']\<rparr>"
        JS 5 "setValue ''x'' (Num 3) (sv_createChildClient no_options embedded_window)"] a b
    by (simp add: Let_def)
qed

text \<open>
  C6, as the spec states it: \<^verbatim>\<open>subscribe\<close> invokes the callback immediately with the
  current value. A new child client of the Svelte demo has no value for \<^verbatim>\<open>"counter"\<close> yet,
  and its \<^verbatim>\<open>subscribe("counter", cb)\<close> invokes nothing; nor does it after
  \<^verbatim>\<open>setValue("counter", undefined)\<close>, when the client holds the value \<^verbatim>\<open>undefined\<close> for the
  key.
\<close>

theorem subscribe_without_value_svelte_child:
  "c_new_calls (sv_createChildClient no_options embedded_window)
     (subscribe ''counter'' 1 (sv_createChildClient no_options embedded_window)) = []
   \<and> map_of (c_state (setValue ''counter'' Undefined
                         (sv_createChildClient no_options embedded_window))) ''counter''
       = Some Undefined
   \<and> c_new_calls (setValue ''counter'' Undefined (sv_createChildClient no_options embedded_window))
        (subscribe ''counter'' 1
           (setValue ''counter'' Undefined (sv_createChildClient no_options embedded_window))) = []"
  by (simp add: c_new_calls_def subscribe_nf state_get_def setValue_def Let_def c_log_def
      c_postToParent_def)


section \<open>One step of a coordinator\<close>

lemma cell_set_nf:
  "cell_set cp k v s =
     (case map_of (atoms s) k of
        None \<Rightarrow> (if cp = Svelte then sv_log ''Atom not found'' s else s)
      | Some a \<Rightarrow>
          s\<lparr>atoms := map_set k (a\<lparr>val := v\<rparr>) (atoms s),
            posted := posted s @ notify_posts (subscribers a) v s,
            console := console s @ notify_console cp (subscribers a) s,
            calls := calls s @ notify_calls k v (subscribers a)\<rparr>)"
  by (cases cp)
     (simp_all add: cell_set_def sv_setValue_def bc_fold atom_set_nf split: option.splits)

lemma value_message_nf:
  assumes "data ev = AtomSync k v t"
  shows "setupMessageListener cp ev s =
     (case map_of (atoms s) k of
        None \<Rightarrow>
          (case cp of
             JS \<Rightarrow> s
           | TS \<Rightarrow> (if debug s
                     then console_warn ''[IframeStateSync] Received update for unknown atom'' s
                     else s)
           | Svelte \<Rightarrow> sv_log ''Atom not found'' (sv_log ''Received atom update from iframe'' s))
      | Some a \<Rightarrow>
          s\<lparr>atoms := map_set k (a\<lparr>val := v\<rparr>) (atoms s),
            posted := posted s @ notify_posts (subscribers a) v s,
            console := console s @
              (case cp of
                 JS \<Rightarrow> notify_console JS (subscribers a) s @
                       (if debug s then [ConsoleLog ''[IframeStateSync] Received''] else [])
               | TS \<Rightarrow> notify_console TS (subscribers a) s @
                       (if debug s then [ConsoleLog ''[IframeStateSync] Received update for'']
                        else [])
               | Svelte \<Rightarrow>
                   (if debug s then [ConsoleLog ''Received atom update from iframe''] else []) @
                   notify_console Svelte (subscribers a) s),
            calls := calls s @ notify_calls k v (subscribers a)\<rparr>)"
  using assms
  by (cases cp)
     (simp_all add: setupMessageListener_def js_setupMessageListener_def
        ts_setupMessageListener_def sv_setupMessageListener_def sv_setValue_def bc_fold
        atom_set_nf Let_def console_log_def sv_log_def split: option.splits)

lemma other_message_nf:
  assumes "data ev = OtherMessage ty"
  shows "setupMessageListener cp ev s = s"
  using assms
  by (cases cp)
     (simp_all add: setupMessageListener_def js_setupMessageListener_def
        ts_setupMessageListener_def sv_setupMessageListener_def)

lemmas step_simps =
  step_def registerAtom_nf js_getAtom_def ts_getAtom_def
  registerIframe_def js_registerIframe_def ts_registerIframe_def sv_registerIframe_def
  unregisterIframe_def ts_unregisterIframe_def sv_unregisterIframe_def
  cell_set_nf cell_subscribe_def sv_subscribe_def bc_fold atom_subscribe_nf
  atom_unsubscribe_def sv_unsubscribe_def load_nf
  js_requestStateFromParent_def ts_requestStateFromParent_def
  js_sendToParent_def ts_sendToParent_def sv_destroy_def
  console_log_def console_warn_def sv_log_def postMessage_def Let_def

lemma message_cases:
  obtains k v t where "data ev = AtomSync k v t"
  | t where "data ev = AtomSyncRequest t"
  | ty where "data ev = OtherMessage ty"
  by (cases "data ev") auto

lemma message_static:
  "isRoot (setupMessageListener cp ev s) = isRoot s"
  "debug (setupMessageListener cp ev s) = debug s"
  "targetOrigin (setupMessageListener cp ev s) = targetOrigin s"
  "selfIsTop (setupMessageListener cp ev s) = selfIsTop s"
  "iframes (setupMessageListener cp ev s) = iframes s"
  "loadListeners (setupMessageListener cp ev s) = loadListeners s"
  "contentWindow (setupMessageListener cp ev s) = contentWindow s"
  "clock (setupMessageListener cp ev s) = clock s"
  "nextClosure (setupMessageListener cp ev s) = nextClosure s"
proof -
  have "isRoot (setupMessageListener cp ev s) = isRoot s
      \<and> debug (setupMessageListener cp ev s) = debug s
      \<and> targetOrigin (setupMessageListener cp ev s) = targetOrigin s
      \<and> selfIsTop (setupMessageListener cp ev s) = selfIsTop s
      \<and> iframes (setupMessageListener cp ev s) = iframes s
      \<and> loadListeners (setupMessageListener cp ev s) = loadListeners s
      \<and> contentWindow (setupMessageListener cp ev s) = contentWindow s
      \<and> clock (setupMessageListener cp ev s) = clock s
      \<and> nextClosure (setupMessageListener cp ev s) = nextClosure s"
  proof (cases ev rule: message_cases)
    case (1 k v t)
    then show ?thesis
      by (cases cp)
         (simp_all add: value_message_nf console_warn_def sv_log_def console_log_def
            split: option.splits)
  next
    case (2 t)
    show ?thesis
    proof (cases cp)
      case Svelte
      then show ?thesis
        by (simp add: sv_request_nf[OF 2] sv_syncAllToIframe_nf sv_log_def console_log_def
            split: option.splits)
    qed (simp_all add: request_nf[OF 2] split: option.splits)
  next
    case (3 ty)
    then show ?thesis by (simp add: other_message_nf)
  qed
  then show "isRoot (setupMessageListener cp ev s) = isRoot s"
    "debug (setupMessageListener cp ev s) = debug s"
    "targetOrigin (setupMessageListener cp ev s) = targetOrigin s"
    "selfIsTop (setupMessageListener cp ev s) = selfIsTop s"
    "iframes (setupMessageListener cp ev s) = iframes s"
    "loadListeners (setupMessageListener cp ev s) = loadListeners s"
    "contentWindow (setupMessageListener cp ev s) = contentWindow s"
    "clock (setupMessageListener cp ev s) = clock s"
    "nextClosure (setupMessageListener cp ev s) = nextClosure s"
    by simp_all
qed

lemma step_static:
  "isRoot (step cp x s) = isRoot s"
  "debug (step cp x s) = debug s"
  "targetOrigin (step cp x s) = targetOrigin s"
  by (cases x; cases cp; simp add: step_simps message_static split: option.splits)+

lemma loadListeners_step:
  "loadListeners (step cp x s) = loadListeners s @ registrations [x]"
  by (cases x; cases cp;
      simp add: step_simps message_static registrations_def List.map_filter_simps
        split: option.splits)

lemma iframes_step:
  "set (iframes (step cp x s)) \<subseteq> set (iframes s) \<union> set (registrations [x])"
  by (cases x; cases cp;
      auto simp: step_simps message_static registrations_def List.map_filter_simps
        set_add_def set_delete_def split: option.splits)


lemma registrations_Cons: "registrations (x # ops) = registrations [x] @ registrations ops"
  by (simp add: registrations_def List.map_filter_simps split: op.splits)

lemma loadListeners_run: "loadListeners (run cp ops s) = loadListeners s @ registrations ops"
proof (induction ops arbitrary: s)
  case Nil
  show ?case by (simp add: run_def registrations_def List.map_filter_simps)
next
  case (Cons x ops)
  have "loadListeners (run cp (x # ops) s) = loadListeners (run cp ops (step cp x s))"
    by (simp add: run_def)
  also have "\<dots> = loadListeners (step cp x s) @ registrations ops" by (rule Cons)
  also have "\<dots> = loadListeners s @ registrations (x # ops)"
    by (simp add: loadListeners_step registrations_Cons[of x ops])
  finally show ?case .
qed

lemma iframes_run:
  "set (iframes (run cp ops s)) \<subseteq> set (iframes s) \<union> set (registrations ops)"
proof (induction ops arbitrary: s)
  case Nil
  show ?case by (simp add: run_def)
next
  case (Cons x ops)
  have "set (iframes (run cp (x # ops) s)) = set (iframes (run cp ops (step cp x s)))"
    by (simp add: run_def)
  also have "\<dots> \<subseteq> set (iframes (step cp x s)) \<union> set (registrations ops)" by (rule Cons)
  also have "\<dots> \<subseteq> set (iframes s) \<union> set (registrations (x # ops))"
    using iframes_step[of cp x s] by (auto simp: registrations_Cons[of x ops])
  finally show ?case .
qed

lemma run_static:
  "isRoot (run cp ops s) = isRoot s"
  "debug (run cp ops s) = debug s"
  "targetOrigin (run cp ops s) = targetOrigin s"
  by (induction ops arbitrary: s) (simp_all add: run_def step_static)

section \<open>Registering an iframe and its load event\<close>

lemma registerIframe_nf:
  "registerIframe cp f s =
     s\<lparr>iframes := set_add f (iframes s), loadListeners := loadListeners s @ [f],
       console := console s @
         (if debug s
          then [ConsoleLog (if cp = Svelte then ''Registered iframe''
                            else ''[IframeStateSync] Registered iframe'')]
          else [])\<rparr>"
  by (cases cp) (simp_all add: step_simps)

lemma load_posts:
  assumes "contentWindow s f = Some w"
  shows "new_posted s (load cp f s) =
           concat (replicate (count_list (loadListeners s) f) (sync_posts w s))"
  using assms by (simp add: load_nf new_posted_def)

text \<open>
  C2: \<^verbatim>\<open>registerIframe(f)\<close> puts \<open>f\<close> into the broadcast set and attaches a \<^verbatim>\<open>load\<close>
  listener to it. Whatever happens to the coordinator afterwards (\<open>ops\<close>), a \<^verbatim>\<open>load\<close>
  event on \<open>f\<close> then makes each listener that the coordinator has attached to \<open>f\<close> post
  \<open>sync_posts\<close> into the window of \<open>f\<close>: one \<^verbatim>\<open>atom-sync\<close> message for each cell registered
  at that time, carrying the value the cell has at that time. There is one such listener
  for each time \<open>f\<close> was passed to \<^verbatim>\<open>registerIframe\<close>; for an element registered once, the
  messages posted are exactly \<open>sync_posts\<close>.
\<close>

theorem register_then_load:
  "f \<in> set (iframes (registerIframe cp f s))
   \<and> (let s2 = run cp ops (registerIframe cp f s);
          n = count_list (loadListeners s2) f
      in n = Suc (count_list (loadListeners s) f + count_list (registrations ops) f)
       \<and> (contentWindow s2 f = Some w \<longrightarrow>
            new_posted s2 (load cp f s2) = concat (replicate n (sync_posts w s2)))
       \<and> (contentWindow s2 f = Some w \<longrightarrow> f \<notin> set (loadListeners s) \<longrightarrow>
          f \<notin> set (registrations ops) \<longrightarrow>
            new_posted s2 (load cp f s2) = sync_posts w s2))"
proof -
  define s2 where "s2 = run cp ops (registerIframe cp f s)"
  have a: "f \<in> set (iframes (registerIframe cp f s))"
    by (simp add: registerIframe_nf set_add_def)
  have n: "count_list (loadListeners s2) f =
      Suc (count_list (loadListeners s) f + count_list (registrations ops) f)"
    by (simp add: s2_def loadListeners_run registerIframe_nf)
  have p: "contentWindow s2 f = Some w \<Longrightarrow>
      new_posted s2 (load cp f s2) =
        concat (replicate (count_list (loadListeners s2) f) (sync_posts w s2))"
    by (rule load_posts)
  have once: "contentWindow s2 f = Some w \<Longrightarrow> f \<notin> set (loadListeners s) \<Longrightarrow>
      f \<notin> set (registrations ops) \<Longrightarrow> new_posted s2 (load cp f s2) = sync_posts w s2"
    using n p by (simp add: count_list_0_iff)
  show ?thesis
    unfolding s2_def[symmetric] Let_def using a n p once by blast
qed


lemma broadcasting_cells: "broadcasting s = cells_ok (\<lambda>k subs. Broadcast k \<in> set subs) s"
  by (simp add: broadcasting_def cells_ok_def)

lemma registered_example:
  "run TS [CellSet ''x'' (Num 5)] (registerIframe TS 2 (one_cell TS)) =
     top_window\<lparr>atoms := [(''x'', \<lparr>val = Num 5, subscribers = [Broadcast ''x'']\<rparr>)],
       iframes := [2], targetOrigin := ''*'', isRoot := True, loadListeners := [2],
       posted := [(ToWindow 102, ''*'', AtomSync ''x'' (Num 5) 0)]\<rparr>"
  by (simp add: run_def step_def cell_set_nf registerIframe_nf one_cell_simps set_add_def
      notify_posts_def notify_console_def notify_calls_def bc_posts_def bc_console_def
      List.map_filter_simps)

theorem register_then_load_witness:
  "contentWindow (run TS [CellSet ''x'' (Num 5)] (registerIframe TS 2 (one_cell TS))) 2 = Some 102
   \<and> 2 \<notin> set (loadListeners (one_cell TS))
   \<and> 2 \<notin> set (registrations [CellSet ''x'' (Num 5)])
   \<and> new_posted (run TS [CellSet ''x'' (Num 5)] (registerIframe TS 2 (one_cell TS)))
        (load TS 2 (run TS [CellSet ''x'' (Num 5)] (registerIframe TS 2 (one_cell TS))))
       = [(ToWindow 102, ''*'', AtomSync ''x'' (Num 5) 0)]"
proof -
  have w: "contentWindow (run TS [CellSet ''x'' (Num 5)] (registerIframe TS 2 (one_cell TS))) 2
      = Some 102"
    by (simp add: registered_example)
  have l: "2 \<notin> set (loadListeners (one_cell TS))"
    by (simp add: one_cell_simps)
  have r: "2 \<notin> set (registrations [CellSet ''x'' (Num 5)])"
    by (simp add: registrations_def List.map_filter_simps)
  have "new_posted (run TS [CellSet ''x'' (Num 5)] (registerIframe TS 2 (one_cell TS)))
        (load TS 2 (run TS [CellSet ''x'' (Num 5)] (registerIframe TS 2 (one_cell TS))))
      = sync_posts 102 (run TS [CellSet ''x'' (Num 5)] (registerIframe TS 2 (one_cell TS)))"
    using register_then_load[of 2 TS "one_cell TS" "[CellSet ''x'' (Num 5)]" 102] w l r
    unfolding Let_def by blast
  then show ?thesis
    using w l r by (simp add: registered_example sync_posts_def)
qed

section \<open>A value message from a child\<close>

lemma message_atoms:
  "atoms (setupMessageListener cp ev s) =
     (case data ev of
        AtomSync k v t \<Rightarrow>
          (case map_of (atoms s) k of
             None \<Rightarrow> atoms s
           | Some a \<Rightarrow> map_set k (a\<lparr>val := v\<rparr>) (atoms s))
      | _ \<Rightarrow> atoms s)"
proof (cases ev rule: message_cases)
  case (1 k v t)
  then show ?thesis
    by (cases cp)
       (simp_all add: value_message_nf console_warn_def sv_log_def console_log_def
          split: option.splits)
next
  case (2 t)
  show ?thesis
  proof (cases cp)
    case Svelte
    then show ?thesis
      using 2
      by (simp add: sv_request_nf[OF 2] sv_syncAllToIframe_nf sv_log_def console_log_def
          split: option.splits)
  qed (simp_all add: request_nf[OF 2] 2 split: option.splits)
next
  case (3 ty)
  then show ?thesis by (simp add: other_message_nf)
qed

lemma cells_ok_map_set:
  assumes "cells_ok Q s" "Q k (subscribers a)" "atoms s' = map_set k a (atoms s)"
  shows "cells_ok Q s'"
  using assms set_map_set[of k a "atoms s"] by (fastforce simp: cells_ok_def)

lemma cells_ok_same: "cells_ok Q s \<Longrightarrow> atoms s' = atoms s \<Longrightarrow> cells_ok Q s'"
  by (simp add: cells_ok_def)

lemma cells_ok_lookup: "cells_ok Q s \<Longrightarrow> map_of (atoms s) k = Some a \<Longrightarrow> Q k (subscribers a)"
  by (auto simp: cells_ok_def dest: map_of_SomeD)

lemma cells_ok_step:
  assumes ok: "cells_ok Q s"
    and fresh: "\<And>k. Q k (if cp = Svelte \<or> isRoot s then [Broadcast k] else [])"
    and add: "\<And>k subs cb. Q k subs \<Longrightarrow> Q k (set_add (subscription cp s cb) subs)"
    and del: "\<And>k subs fn. Q k subs \<Longrightarrow> \<forall>k'. fn \<noteq> Broadcast k' \<Longrightarrow> Q k (removeAll fn subs)"
  shows "cells_ok Q (step cp x s)"
proof (cases x)
  case (RegisterAtom k v)
  show ?thesis
  proof (cases "cp \<noteq> JS \<and> map_has k (atoms s)")
    case True
    then show ?thesis
      using RegisterAtom
      by (intro cells_ok_same[OF ok])
         (simp add: step_def registerAtom_nf sv_log_def console_log_def)
  next
    case False
    then show ?thesis
      using RegisterAtom fresh[of k]
      by (intro cells_ok_map_set[OF ok, of k
            "\<lparr>val = v, subscribers = (if cp = Svelte \<or> isRoot s then [Broadcast k] else [])\<rparr>"])
         (auto simp: step_def registerAtom_nf)
  qed
next
  case (CellSet k v)
  show ?thesis
  proof (cases "map_of (atoms s) k")
    case None
    then show ?thesis using CellSet
      by (intro cells_ok_same[OF ok])
         (simp add: step_def cell_set_nf sv_log_def console_log_def)
  next
    case (Some a)
    then show ?thesis using CellSet cells_ok_lookup[OF ok Some]
      by (intro cells_ok_map_set[OF ok, of k "a\<lparr>val := v\<rparr>"])
         (simp_all add: step_def cell_set_nf)
  qed
next
  case (CellSubscribe k cb)
  show ?thesis
  proof (cases "map_of (atoms s) k")
    case None
    then show ?thesis using CellSubscribe
      by (intro cells_ok_same[OF ok])
         (cases cp; simp add: step_def cell_subscribe_def sv_subscribe_def bc_fold
            atom_subscribe_nf sv_log_def console_log_def)
  next
    case (Some a)
    then show ?thesis using CellSubscribe add[OF cells_ok_lookup[OF ok Some], of cb]
      by (intro cells_ok_map_set[OF ok, of k
            "a\<lparr>subscribers := set_add (subscription cp s cb) (subscribers a)\<rparr>"])
         (simp_all add: step_def cell_subscribe_nf)
  qed
next
  case (CellUnsubscribe k cb)
  show ?thesis
  proof (cases "cp = Svelte \<or> map_of (atoms s) k = None")
    case True
    then show ?thesis using CellUnsubscribe
      by (intro cells_ok_same[OF ok])
         (cases cp; auto simp: step_def atom_unsubscribe_def)
  next
    case False
    then obtain a where a: "map_of (atoms s) k = Some a" by auto
    then show ?thesis
      using False CellUnsubscribe del[OF cells_ok_lookup[OF ok a], of "Callback cb"]
      by (intro cells_ok_map_set[OF ok, of k
            "a\<lparr>subscribers := removeAll (Callback cb) (subscribers a)\<rparr>"])
         (cases cp; simp add: step_def atom_unsubscribe_nf)+
  qed
next
  case (WrapperUnsubscribe k i cb)
  show ?thesis
  proof (cases "cp \<noteq> Svelte \<or> map_of (atoms s) k = None")
    case True
    then show ?thesis using WrapperUnsubscribe
      by (intro cells_ok_same[OF ok])
         (cases cp; auto simp: step_def atom_unsubscribe_def sv_unsubscribe_def)
  next
    case False
    then obtain a where a: "map_of (atoms s) k = Some a" by auto
    then show ?thesis
      using False WrapperUnsubscribe del[OF cells_ok_lookup[OF ok a], of "Wrapper i cb"]
      by (intro cells_ok_map_set[OF ok, of k
            "a\<lparr>subscribers := removeAll (Wrapper i cb) (subscribers a)\<rparr>"])
         (simp_all add: step_def atom_unsubscribe_nf sv_unsubscribe_def)
  qed
next
  case (Message ev)
  show ?thesis
  proof (cases "\<exists>k v t a. data ev = AtomSync k v t \<and> map_of (atoms s) k = Some a")
    case True
    then obtain k v t a where d: "data ev = AtomSync k v t" and a: "map_of (atoms s) k = Some a"
      by auto
    then show ?thesis using Message cells_ok_lookup[OF ok a]
      by (intro cells_ok_map_set[OF ok, of k "a\<lparr>val := v\<rparr>"])
         (simp_all add: step_def message_atoms)
  next
    case False
    then show ?thesis using Message
      by (intro cells_ok_same[OF ok])
         (auto simp: step_def message_atoms split: message.splits option.splits)
  qed
next
  case Destroy
  then show ?thesis using ok
    by (cases cp) (simp_all add: step_def sv_destroy_def cells_ok_def)
qed (use ok in \<open>cases cp; simp add: step_simps cells_ok_def split: option.splits\<close>)+

lemma broadcasting_step:
  assumes "broadcasting s" "cp \<noteq> Svelte \<longrightarrow> isRoot s"
  shows "broadcasting (step cp x s)"
  unfolding broadcasting_cells
  by (rule cells_ok_step[where Q = "\<lambda>k subs. Broadcast k \<in> set subs"])
     (use assms in \<open>auto simp: broadcasting_cells set_add_def\<close>)

lemma wrapper_free_step:
  assumes "wrapper_free s" "cp \<noteq> Svelte"
  shows "wrapper_free (step cp x s)"
  unfolding wrapper_free_def
  by (rule cells_ok_step[where Q = "\<lambda>k subs. \<forall>sub \<in> set subs. \<not> is_wrapper sub"])
     (use assms in \<open>cases cp; auto simp: wrapper_free_def set_add_def subscription_def\<close>)+

lemma constructor_fields:
  "atoms (constructor cp opts w) = []"
  "iframes (constructor cp opts w) = []"
  "cp \<noteq> Svelte \<Longrightarrow> isRoot (constructor cp opts w) = selfIsTop w"
  "calls (constructor cp opts w) = calls w"
  "posted (constructor cp opts w) = posted w"
  by (cases cp; simp add: constructor_def js_constructor_def ts_constructor_def
      sv_constructor_def console_log_def Let_def)+

lemma broadcasting_run:
  "broadcasting s \<Longrightarrow> cp \<noteq> Svelte \<longrightarrow> isRoot s \<Longrightarrow> broadcasting (run cp ops s)"
proof (induction ops arbitrary: s)
  case Nil
  then show ?case by (simp add: run_def)
next
  case (Cons x ops)
  have "broadcasting (run cp ops (step cp x s))"
    using Cons.prems by (intro Cons.IH broadcasting_step) (simp_all add: step_static)
  then show ?case by (simp add: run_def)
qed

lemma wrapper_free_run:
  "wrapper_free s \<Longrightarrow> cp \<noteq> Svelte \<Longrightarrow> wrapper_free (run cp ops s)"
proof (induction ops arbitrary: s)
  case Nil
  then show ?case by (simp add: run_def)
next
  case (Cons x ops)
  have "wrapper_free (run cp ops (step cp x s))"
    using Cons.prems by (intro Cons.IH wrapper_free_step)
  then show ?case by (simp add: run_def)
qed

lemma root_broadcasting:
  assumes "selfIsTop w"
  shows "broadcasting (run cp ops (constructor cp opts w))"
  using assms
  by (intro broadcasting_run) (simp_all add: broadcasting_def constructor_fields)


lemma value_message_effect:
  assumes "data ev = AtomSync k v t" "map_of (atoms s) k = Some a"
  shows "atom_get k (setupMessageListener cp ev s) = Some v"
    and "new_calls s (setupMessageListener cp ev s) = notify_calls k v (subscribers a)"
    and "new_posted s (setupMessageListener cp ev s) = notify_posts (subscribers a) v s"
  using assms
  by (simp_all add: value_message_nf atom_get_def map_of_map_set new_calls_def new_posted_def)

lemma bc_posts_mem:
  assumes "e \<in> set (iframes s)" "contentWindow s e = Some w"
  shows "(ToWindow w, targetOrigin s, AtomSync k v (clock s)) \<in> set (bc_posts k v s)"
  using assms by (force simp: bc_posts_def List.map_filter_def)

lemma bc_in_notify: "Broadcast k \<in> set subs \<Longrightarrow> set (bc_posts k v s) \<subseteq> set (notify_posts subs v s)"
  by (force simp: notify_posts_def)

lemma notify_calls_mem:
  "(k', c, v') \<in> set (notify_calls k v subs) \<longleftrightarrow>
     k' = k \<and> v' = v \<and> (\<exists>sub \<in> set subs. calls_back sub c)"
proof (induction subs)
  case Nil
  show ?case by (simp add: notify_calls_def)
next
  case (Cons sub subs)
  then show ?case by (cases sub) (auto simp: notify_calls_def)
qed

text \<open>
  C1: take a coordinator built in a top-level window, after any operations, and let an
  \<^verbatim>\<open>atom-sync\<close> message with the value \<open>v\<close> arrive for a key \<open>k\<close> that has a cell. Then
  the cell holds \<open>v\<close>; the user callbacks subscribed to the cell are called with \<open>v\<close>
  (and nothing else is called); and an \<^verbatim>\<open>atom-sync\<close> message carrying \<open>k\<close> and \<open>v\<close> is
  posted to the window of every registered iframe element, the sender included.
\<close>

theorem child_update_reaches_all:
  "selfIsTop w0 \<longrightarrow> data ev = AtomSync k v t \<longrightarrow>
     (let s = run cp ops (constructor cp opts w0);
          s' = setupMessageListener cp ev s
      in \<forall>a. map_of (atoms s) k = Some a \<longrightarrow>
             atom_get k s' = Some v
           \<and> new_calls s s' = notify_calls k v (subscribers a)
           \<and> (\<forall>c. Callback c \<in> set (subscribers a) \<longrightarrow> (k, c, v) \<in> set (new_calls s s'))
           \<and> (\<forall>e \<in> set (iframes s). \<forall>win. contentWindow s e = Some win \<longrightarrow>
                 (ToWindow win, targetOrigin s, AtomSync k v (clock s)) \<in> set (new_posted s s')))"
proof (intro impI)
  assume top: "selfIsTop w0" and d: "data ev = AtomSync k v t"
  define s where "s = run cp ops (constructor cp opts w0)"
  define s' where "s' = setupMessageListener cp ev s"
  have b: "broadcasting s" unfolding s_def by (rule root_broadcasting[OF top])
  have "atom_get k s' = Some v
      \<and> new_calls s s' = notify_calls k v (subscribers a)
      \<and> (\<forall>c. Callback c \<in> set (subscribers a) \<longrightarrow> (k, c, v) \<in> set (new_calls s s'))
      \<and> (\<forall>e \<in> set (iframes s). \<forall>win. contentWindow s e = Some win \<longrightarrow>
            (ToWindow win, targetOrigin s, AtomSync k v (clock s)) \<in> set (new_posted s s'))"
    if a: "map_of (atoms s) k = Some a" for a
  proof -
    note eff = value_message_effect[OF d a, of cp, folded s'_def]
    have bk: "Broadcast k \<in> set (subscribers a)"
      using cells_ok_lookup[OF b[unfolded broadcasting_cells] a] .
    have calls: "(k, c, v) \<in> set (new_calls s s')" if "Callback c \<in> set (subscribers a)" for c
      using that by (auto simp: eff(2) notify_calls_mem intro: bexI[of _ "Callback c"])
    have posts: "(ToWindow win, targetOrigin s, AtomSync k v (clock s)) \<in> set (new_posted s s')"
      if "e \<in> set (iframes s)" "contentWindow s e = Some win" for e win
      using bc_posts_mem[OF that, of k v] bc_in_notify[OF bk, of v s] by (auto simp: eff(3))
    show ?thesis using eff(1,2) calls posts by blast
  qed
  then show "let s = run cp ops (constructor cp opts w0);
          s' = setupMessageListener cp ev s
      in \<forall>a. map_of (atoms s) k = Some a \<longrightarrow>
             atom_get k s' = Some v
           \<and> new_calls s s' = notify_calls k v (subscribers a)
           \<and> (\<forall>c. Callback c \<in> set (subscribers a) \<longrightarrow> (k, c, v) \<in> set (new_calls s s'))
           \<and> (\<forall>e \<in> set (iframes s). \<forall>win. contentWindow s e = Some win \<longrightarrow>
                 (ToWindow win, targetOrigin s, AtomSync k v (clock s)) \<in> set (new_posted s s'))"
    unfolding Let_def s_def s'_def by blast
qed

lemma two_frames_TS:
  "two_frames TS =
     top_window\<lparr>atoms := [(''x'', \<lparr>val = Num 1, subscribers = [Broadcast ''x'', Callback 5]\<rparr>)],
       iframes := [2, 3], targetOrigin := ''*'', isRoot := True, loadListeners := [2, 3],
       calls := [(''x'', 5, Num 1)]\<rparr>"
  by (simp add: two_frames_def run_def step_def cell_subscribe_nf registerIframe_nf
      one_cell_simps set_add_def subscription_def)

lemma two_frames_run:
  "two_frames cp =
     run cp [RegisterAtom ''x'' (Num 1), RegisterIframe 2, RegisterIframe 3, CellSubscribe ''x'' 5]
       (constructor cp no_options top_window)"
  by (simp add: two_frames_def one_cell_def run_def)

theorem child_update_reaches_all_witness:
  "selfIsTop top_window
   \<and> data \<lparr>data = AtomSync ''x'' (Num 9) 0, source = Some 102\<rparr> = AtomSync ''x'' (Num 9) 0
   \<and> map_of (atoms (two_frames TS)) ''x'' =
       Some \<lparr>val = Num 1, subscribers = [Broadcast ''x'', Callback 5]\<rparr>
   \<and> Callback 5 \<in> set [Broadcast ''x'', Callback 5]
   \<and> 3 \<in> set (iframes (two_frames TS)) \<and> contentWindow (two_frames TS) 3 = Some 103
   \<and> atom_get ''x''
        (setupMessageListener TS \<lparr>data = AtomSync ''x'' (Num 9) 0, source = Some 102\<rparr>
           (two_frames TS)) = Some (Num 9)
   \<and> (''x'', 5, Num 9) \<in> set (new_calls (two_frames TS)
        (setupMessageListener TS \<lparr>data = AtomSync ''x'' (Num 9) 0, source = Some 102\<rparr>
           (two_frames TS)))
   \<and> (ToWindow 103, ''*'', AtomSync ''x'' (Num 9) 0) \<in> set (new_posted (two_frames TS)
        (setupMessageListener TS \<lparr>data = AtomSync ''x'' (Num 9) 0, source = Some 102\<rparr>
           (two_frames TS)))"
proof -
  let ?ev = "\<lparr>data = AtomSync ''x'' (Num 9) 0, source = Some 102\<rparr>"
  let ?a = "\<lparr>val = Num 1, subscribers = [Broadcast ''x'', Callback 5]\<rparr>"
  have top: "selfIsTop top_window" by simp
  have d: "data ?ev = AtomSync ''x'' (Num 9) 0" by simp
  have a: "map_of (atoms (two_frames TS)) ''x'' = Some ?a" by (simp add: two_frames_TS)
  have c: "Callback 5 \<in> set (subscribers ?a)" by simp
  have e: "3 \<in> set (iframes (two_frames TS))" "contentWindow (two_frames TS) 3 = Some 103"
    by (simp_all add: two_frames_TS)
  have o: "targetOrigin (two_frames TS) = ''*''" "clock (two_frames TS) = 0"
    by (simp_all add: two_frames_TS)
  from child_update_reaches_all[of top_window ?ev "''x''" "Num 9" 0 TS
      "[RegisterAtom ''x'' (Num 1), RegisterIframe 2, RegisterIframe 3, CellSubscribe ''x'' 5]"
      no_options, folded two_frames_run, unfolded Let_def] top d a
  have "atom_get ''x'' (setupMessageListener TS ?ev (two_frames TS)) = Some (Num 9)
      \<and> (\<forall>c. Callback c \<in> set (subscribers ?a) \<longrightarrow>
            (''x'', c, Num 9) \<in> set (new_calls (two_frames TS)
               (setupMessageListener TS ?ev (two_frames TS))))
      \<and> (\<forall>e \<in> set (iframes (two_frames TS)). \<forall>win. contentWindow (two_frames TS) e = Some win \<longrightarrow>
            (ToWindow win, targetOrigin (two_frames TS), AtomSync ''x'' (Num 9) (clock (two_frames TS)))
              \<in> set (new_posted (two_frames TS) (setupMessageListener TS ?ev (two_frames TS))))"
    by blast
  with c e o top d a show ?thesis by (auto simp del: One_nat_def)
qed


section \<open>Unregistering an iframe\<close>

lemma unregisterIframe_nf:
  assumes "cp \<noteq> JS"
  shows "unregisterIframe cp f s =
     s\<lparr>iframes := removeAll f (iframes s),
       console := console s @
         (if debug s
          then [ConsoleLog (if cp = Svelte then ''Unregistered iframe''
                            else ''[IframeStateSync] Unregistered iframe'')]
          else [])\<rparr>"
  using assms by (cases cp) (simp_all add: step_simps set_delete_def)

lemma notify_posts_targets:
  assumes "p \<in> set (notify_posts subs v s)"
  shows "\<exists>e \<in> set (iframes s). \<exists>w. contentWindow s e = Some w \<and> fst p = ToWindow w"
  using assms
  by (auto simp: notify_posts_def bc_posts_def List.map_filter_def split: subscriber.splits)

lemma cell_set_posts:
  "new_posted s (cell_set cp k v s) =
     (case map_of (atoms s) k of None \<Rightarrow> [] | Some a \<Rightarrow> notify_posts (subscribers a) v s)"
  by (simp add: cell_set_nf new_posted_def sv_log_def console_log_def split: option.splits)

lemma cell_set_targets:
  assumes "p \<in> set (new_posted s (cell_set cp k v s))"
  shows "\<exists>e \<in> set (iframes s). \<exists>w. contentWindow s e = Some w \<and> fst p = ToWindow w"
  using assms notify_posts_targets[of p _ v s]
  by (auto simp: cell_set_posts split: option.splits)

text \<open>
  C10 (TypeScript and Svelte copies; the JavaScript copy has no \<^verbatim>\<open>unregisterIframe\<close>):
  register the element \<open>f\<close>, let anything happen, unregister \<open>f\<close>, and let anything happen
  except a new registration of \<open>f\<close>. Then \<open>f\<close> is not in the broadcast set; setting a cell
  posts only to windows of elements that are registered, none of which is \<open>f\<close>, so that
  nothing is posted to the window of \<open>f\<close> (no registered element shares it); the \<^verbatim>\<open>load\<close>
  listener is still attached to \<open>f\<close>; and a \<^verbatim>\<open>load\<close> event on \<open>f\<close> posts the current value of
  every registered cell into the window of \<open>f\<close>, once for each listener.
\<close>

theorem unregistered_iframe:
  "cp \<noteq> JS \<longrightarrow> f \<notin> set (registrations ops2) \<longrightarrow>
     (let s1 = run cp ops1 (registerIframe cp f s0);
          s2 = run cp ops2 (unregisterIframe cp f s1);
          s3 = cell_set cp k v s2
      in f \<notin> set (iframes s2)
       \<and> (\<forall>p \<in> set (new_posted s2 s3).
             \<exists>e \<in> set (iframes s2). \<exists>w. e \<noteq> f \<and> contentWindow s2 e = Some w \<and> fst p = ToWindow w)
       \<and> (\<forall>w. contentWindow s2 f = Some w \<longrightarrow>
                (\<forall>e \<in> set (iframes s2). contentWindow s2 e \<noteq> Some w) \<longrightarrow>
                (\<forall>origin m. (ToWindow w, origin, m) \<notin> set (new_posted s2 s3)))
       \<and> f \<in> set (loadListeners s2)
       \<and> (\<forall>w. contentWindow s2 f = Some w \<longrightarrow>
                new_posted s2 (load cp f s2) =
                  concat (replicate (count_list (loadListeners s2) f) (sync_posts w s2))
              \<and> 0 < count_list (loadListeners s2) f))"
proof (intro impI)
  assume cp: "cp \<noteq> JS" and ops2: "f \<notin> set (registrations ops2)"
  define s1 where "s1 = run cp ops1 (registerIframe cp f s0)"
  define s2 where "s2 = run cp ops2 (unregisterIframe cp f s1)"
  define s3 where "s3 = cell_set cp k v s2"
  have "f \<notin> set (iframes (unregisterIframe cp f s1))"
    by (simp add: unregisterIframe_nf[OF cp])
  then have out: "f \<notin> set (iframes s2)"
    using iframes_run[of cp ops2 "unregisterIframe cp f s1"] ops2 unfolding s2_def by blast
  have targets: "\<exists>e \<in> set (iframes s2). \<exists>w. e \<noteq> f \<and> contentWindow s2 e = Some w \<and> fst p = ToWindow w"
    if "p \<in> set (new_posted s2 s3)" for p
    using cell_set_targets[OF that[unfolded s3_def]] out by metis
  have none: "(ToWindow w, origin, m) \<notin> set (new_posted s2 s3)"
    if "\<forall>e \<in> set (iframes s2). contentWindow s2 e \<noteq> Some w" for w origin m
    using targets[of "(ToWindow w, origin, m)"] that by auto
  have "f \<in> set (loadListeners s1)"
    by (simp add: s1_def loadListeners_run registerIframe_nf)
  then have lis: "f \<in> set (loadListeners s2)"
    by (simp add: s2_def loadListeners_run unregisterIframe_nf[OF cp])
  then have pos: "0 < count_list (loadListeners s2) f"
    by (simp add: count_list_0_iff zero_less_iff_neq_zero)
  have ld: "new_posted s2 (load cp f s2) =
      concat (replicate (count_list (loadListeners s2) f) (sync_posts w s2))"
    if "contentWindow s2 f = Some w" for w
    using that by (rule load_posts)
  show "let s1 = run cp ops1 (registerIframe cp f s0);
          s2 = run cp ops2 (unregisterIframe cp f s1);
          s3 = cell_set cp k v s2
      in f \<notin> set (iframes s2)
       \<and> (\<forall>p \<in> set (new_posted s2 s3).
             \<exists>e \<in> set (iframes s2). \<exists>w. e \<noteq> f \<and> contentWindow s2 e = Some w \<and> fst p = ToWindow w)
       \<and> (\<forall>w. contentWindow s2 f = Some w \<longrightarrow>
                (\<forall>e \<in> set (iframes s2). contentWindow s2 e \<noteq> Some w) \<longrightarrow>
                (\<forall>origin m. (ToWindow w, origin, m) \<notin> set (new_posted s2 s3)))
       \<and> f \<in> set (loadListeners s2)
       \<and> (\<forall>w. contentWindow s2 f = Some w \<longrightarrow>
                new_posted s2 (load cp f s2) =
                  concat (replicate (count_list (loadListeners s2) f) (sync_posts w s2))
              \<and> 0 < count_list (loadListeners s2) f)"
    unfolding Let_def s1_def[symmetric] s2_def[symmetric] s3_def[symmetric]
    using out targets none lis pos ld by blast
qed


lemma unregistered_example:
  "run TS [CellSet ''x'' (Num 4)]
     (unregisterIframe TS 2 (run TS [RegisterIframe 3] (registerIframe TS 2 (one_cell TS)))) =
     top_window\<lparr>atoms := [(''x'', \<lparr>val = Num 4, subscribers = [Broadcast ''x'']\<rparr>)],
       iframes := [3], targetOrigin := ''*'', isRoot := True, loadListeners := [2, 3],
       posted := [(ToWindow 103, ''*'', AtomSync ''x'' (Num 4) 0)]\<rparr>"
  by (simp add: run_def step_def cell_set_nf registerIframe_nf unregisterIframe_nf one_cell_simps
      set_add_def notify_posts_def notify_console_def notify_calls_def bc_posts_def
      bc_console_def List.map_filter_simps)

theorem unregistered_iframe_witness:
  "TS \<noteq> JS \<and> 2 \<notin> set (registrations [CellSet ''x'' (Num 4)])
   \<and> (let s2 = run TS [CellSet ''x'' (Num 4)]
                  (unregisterIframe TS 2
                     (run TS [RegisterIframe 3] (registerIframe TS 2 (one_cell TS))))
      in contentWindow s2 2 = Some 102
       \<and> (\<forall>e \<in> set (iframes s2). contentWindow s2 e \<noteq> Some 102)
       \<and> 2 \<notin> set (iframes s2)
       \<and> new_posted s2 (cell_set TS ''x'' (Num 7) s2) =
           [(ToWindow 103, ''*'', AtomSync ''x'' (Num 7) 0)]
       \<and> (\<forall>origin m. (ToWindow 102, origin, m) \<notin> set (new_posted s2 (cell_set TS ''x'' (Num 7) s2)))
       \<and> new_posted s2 (load TS 2 s2) = [(ToWindow 102, ''*'', AtomSync ''x'' (Num 4) 0)])"
proof -
  define s2 where "s2 = run TS [CellSet ''x'' (Num 4)]
     (unregisterIframe TS 2 (run TS [RegisterIframe 3] (registerIframe TS 2 (one_cell TS))))"
  have s2: "s2 = top_window\<lparr>atoms := [(''x'', \<lparr>val = Num 4, subscribers = [Broadcast ''x'']\<rparr>)],
       iframes := [3], targetOrigin := ''*'', isRoot := True, loadListeners := [2, 3],
       posted := [(ToWindow 103, ''*'', AtomSync ''x'' (Num 4) 0)]\<rparr>"
    unfolding s2_def by (rule unregistered_example)
  have h1: "TS \<noteq> JS" by simp
  have h2: "2 \<notin> set (registrations [CellSet ''x'' (Num 4)])"
    by (simp add: registrations_def List.map_filter_simps)
  have h3: "contentWindow s2 2 = Some 102" by (simp add: s2)
  have h4: "\<forall>e \<in> set (iframes s2). contentWindow s2 e \<noteq> Some 102" by (simp add: s2)
  have p: "new_posted s2 (cell_set TS ''x'' (Num 7) s2) =
      [(ToWindow 103, ''*'', AtomSync ''x'' (Num 7) 0)]"
    by (simp add: s2 cell_set_posts notify_posts_def bc_posts_def List.map_filter_simps)
  have c: "count_list (loadListeners s2) 2 = 1" by (simp add: s2)
  from unregistered_iframe[of TS 2 "[CellSet ''x'' (Num 4)]" "[RegisterIframe 3]" "one_cell TS"
      "''x''" "Num 7", unfolded Let_def, folded s2_def] h1 h2 h3 h4
  have "2 \<notin> set (iframes s2)
      \<and> (\<forall>origin m. (ToWindow 102, origin, m) \<notin> set (new_posted s2 (cell_set TS ''x'' (Num 7) s2)))
      \<and> new_posted s2 (load TS 2 s2) =
          concat (replicate (count_list (loadListeners s2) 2) (sync_posts 102 s2))"
    by blast
  then have "2 \<notin> set (iframes s2)
      \<and> (\<forall>origin m. (ToWindow 102, origin, m) \<notin> set (new_posted s2 (cell_set TS ''x'' (Num 7) s2)))
      \<and> new_posted s2 (load TS 2 s2) = [(ToWindow 102, ''*'', AtomSync ''x'' (Num 4) 0)]"
    unfolding c by (simp add: s2 sync_posts_def)
  with h1 h2 h3 h4 p show ?thesis
    unfolding Let_def s2_def[symmetric] by blast
qed

section \<open>After unsubscribing\<close>

lemma listens_subs: "listens s k cb = (\<exists>sub \<in> set (subs_of s k). calls_back sub cb)"
  by (auto simp: listens_def subs_of_def split: option.splits)

lemma calls_step:
  "calls (step cp x s) = calls s @
     (case x of
        CellSet k v \<Rightarrow> notify_calls k v (subs_of s k)
      | CellSubscribe k cb \<Rightarrow>
          (case map_of (atoms s) k of None \<Rightarrow> [] | Some a \<Rightarrow> [(k, cb, val a)])
      | Message ev \<Rightarrow>
          (case data ev of AtomSync k v t \<Rightarrow> notify_calls k v (subs_of s k) | _ \<Rightarrow> [])
      | _ \<Rightarrow> [])"
proof (cases x)
  case (Message ev)
  show ?thesis
  proof (cases ev rule: message_cases)
    case (1 k v t)
    then show ?thesis using Message
      by (cases cp)
         (simp_all add: step_def value_message_nf subs_of_def notify_calls_def sv_log_def
            console_log_def console_warn_def split: option.splits)
  next
    case (2 t)
    show ?thesis
    proof (cases cp)
      case Svelte
      then show ?thesis using Message 2
        by (simp add: step_def sv_request_nf[OF 2] sv_syncAllToIframe_nf sv_log_def
            console_log_def split: option.splits)
    qed (simp_all add: Message step_def request_nf[OF 2] 2)
  next
    case (3 ty)
    then show ?thesis using Message by (simp add: step_def other_message_nf)
  qed
next
  case (CellSubscribe k cb)
  then show ?thesis
    by (cases "map_of (atoms s) k"; cases cp;
        simp add: step_def cell_subscribe_def sv_subscribe_def bc_fold
          atom_subscribe_nf sv_log_def console_log_def notify_calls_def)
qed (cases cp; simp add: step_simps subs_of_def notify_calls_def split: option.splits)+

lemma subs_step:
  "set (subs_of (step cp x s) k) \<subseteq> set (subs_of s k) \<union>
     (case x of
        CellSubscribe k' cb \<Rightarrow> if k' = k then {subscription cp s cb} else {}
      | RegisterAtom k' v \<Rightarrow> {Broadcast k'}
      | _ \<Rightarrow> {})"
proof (cases x)
  case (Message ev)
  then show ?thesis
    by (auto simp: step_def subs_of_def message_atoms map_of_map_set
        split: message.splits option.splits if_splits)
next
  case (RegisterAtom k' v)
  then show ?thesis
    by (auto simp: step_def registerAtom_nf subs_of_def map_of_map_set sv_log_def console_log_def
        split: option.splits if_splits)
next
  case (CellSubscribe k' cb)
  then show ?thesis
    by (cases "map_of (atoms s) k'"; cases cp;
        auto simp: step_def cell_subscribe_def sv_subscribe_def bc_fold
          atom_subscribe_nf sv_log_def console_log_def subs_of_def map_of_map_set set_add_def
          subscription_def split: option.splits if_splits)
qed (cases cp; auto simp: step_simps subs_of_def map_of_map_set set_delete_def
       split: option.splits if_splits)+


lemma not_listening_step:
  assumes "\<not> listens s k cb" "x \<noteq> CellSubscribe k cb"
  shows "\<not> listens (step cp x s) k cb"
    and "(k, cb, v) \<notin> set (new_calls s (step cp x s))"
proof -
  have old: "\<forall>sub \<in> set (subs_of s k). \<not> calls_back sub cb"
    using assms(1) by (simp add: listens_subs)
  have "\<not> calls_back sub cb" if "sub \<in> set (subs_of (step cp x s) k)" for sub
  proof -
    from subs_step[of cp x s k] that
    consider "sub \<in> set (subs_of s k)"
      | k' v' where "x = RegisterAtom k' v'" "sub = Broadcast k'"
      | cb' where "x = CellSubscribe k cb'" "sub = subscription cp s cb'"
      by (cases x) (auto split: if_splits)
    then show ?thesis
    proof cases
      case 1
      then show ?thesis using old by blast
    next
      case 2
      then show ?thesis by simp
    next
      case 3
      then have "cb' \<noteq> cb" using assms(2) by auto
      then show ?thesis using 3 by (cases cp) (simp_all add: subscription_def)
    qed
  qed
  then show "\<not> listens (step cp x s) k cb" by (auto simp: listens_subs)
  show "(k, cb, v) \<notin> set (new_calls s (step cp x s))"
    using old assms(2)
    by (auto simp: new_calls_def calls_step notify_calls_mem
        split: op.splits message.splits option.splits)
qed

lemma calls_run: "\<exists>xs. calls (run cp ops s) = calls s @ xs"
proof (induction ops arbitrary: s)
  case Nil
  show ?case by (simp add: run_def)
next
  case (Cons x ops)
  obtain xs where "calls (run cp ops (step cp x s)) = calls (step cp x s) @ xs"
    using Cons by blast
  then show ?case by (simp add: run_def calls_step)
qed

lemma not_listening_run:
  assumes "\<not> listens s k cb" "CellSubscribe k cb \<notin> set ops"
  shows "\<not> listens (run cp ops s) k cb \<and> (\<forall>v. (k, cb, v) \<notin> set (new_calls s (run cp ops s)))"
  using assms
proof (induction ops arbitrary: s)
  case Nil
  then show ?case by (simp add: run_def new_calls_def)
next
  case (Cons x ops)
  let ?s = "step cp x s"
  have x: "x \<noteq> CellSubscribe k cb" and ops: "CellSubscribe k cb \<notin> set ops"
    using Cons.prems(2) by auto
  note st = not_listening_step[OF Cons.prems(1) x, where cp=cp]
  have ih: "\<not> listens (run cp ops ?s) k cb \<and> (\<forall>v. (k, cb, v) \<notin> set (new_calls ?s (run cp ops ?s)))"
    using Cons.IH[OF st(1) ops] .
  obtain xs where xs: "calls ?s = calls s @ xs"
    by (auto simp: calls_step)
  obtain ys where ys: "calls (run cp ops ?s) = calls ?s @ ys"
    using calls_run by blast
  have r: "run cp (x # ops) s = run cp ops ?s"
    by (simp add: run_def)
  have split: "new_calls s (run cp (x # ops) s) = new_calls s ?s @ new_calls ?s (run cp ops ?s)"
    unfolding r by (simp add: new_calls_def xs ys)
  show ?case using ih st(2) unfolding split by (simp add: r)
qed

lemma unsubscribe_stops_listening:
  assumes "wrapper_free s"
  shows "\<not> listens (atom_unsubscribe k (Callback cb) s) k cb"
proof (cases "map_of (atoms s) k")
  case None
  then show ?thesis by (simp add: atom_unsubscribe_def listens_def)
next
  case (Some a)
  have "\<forall>sub \<in> set (subscribers a). \<not> is_wrapper sub"
    using cells_ok_lookup[OF assms[unfolded wrapper_free_def] Some] .
  then have "\<not> calls_back sub cb" if "sub \<in> set (subscribers a)" "sub \<noteq> Callback cb" for sub
    using that by (cases sub) auto
  then show ?thesis
    using Some by (auto simp: atom_unsubscribe_nf listens_def map_of_map_set)
qed

lemma unsubscribe_twice:
  "atom_unsubscribe k fn (atom_unsubscribe k fn s) = atom_unsubscribe k fn s"
proof (cases "map_of (atoms s) k")
  case None
  then show ?thesis by (simp add: atom_unsubscribe_def)
next
  case (Some a)
  then show ?thesis
    by (simp add: atom_unsubscribe_def map_of_map_set map_set_map_set set_delete_def)
qed

lemma reachable_wrapper_free:
  assumes "cp \<noteq> Svelte"
  shows "wrapper_free (run cp ops (constructor cp opts w))"
  using assms
  by (intro wrapper_free_run) (simp_all add: wrapper_free_def cells_ok_def constructor_fields)

text \<open>Only \<^verbatim>\<open>registerAtom\<close> of the JavaScript copy puts a new cell under a key.\<close>

lemma message_generation: "generation (setupMessageListener cp ev s) = generation s"
proof (cases ev rule: message_cases)
  case (1 k v t)
  then show ?thesis
    by (cases cp)
       (simp_all add: value_message_nf console_warn_def sv_log_def console_log_def
          split: option.splits)
next
  case (2 t)
  show ?thesis
  proof (cases cp)
    case Svelte
    then show ?thesis
      by (simp add: sv_request_nf[OF 2] sv_syncAllToIframe_nf sv_log_def console_log_def
          split: option.splits)
  qed (simp_all add: request_nf[OF 2] split: option.splits)
next
  case (3 ty)
  then show ?thesis by (simp add: other_message_nf)
qed

lemma generation_step:
  "generation (step cp x s) k =
     (case x of
        RegisterAtom k' v \<Rightarrow> if cp = JS \<and> k' = k then Suc (generation s k) else generation s k
      | _ \<Rightarrow> generation s k)"
  by (cases x; cases cp; simp add: step_simps message_generation split: option.splits)

lemma generation_run_mono: "generation s k \<le> generation (run cp ops s) k"
proof (induction ops arbitrary: s)
  case Nil
  show ?case by (simp add: run_def)
next
  case (Cons x ops)
  have "generation s k \<le> generation (step cp x s) k"
    by (simp add: generation_step split: op.splits)
  also have "\<dots> \<le> generation (run cp ops (step cp x s)) k" by (rule Cons)
  finally show ?case by (simp add: run_def)
qed

lemma generation_run_same:
  assumes "\<forall>v. RegisterAtom k v \<notin> set ops"
  shows "generation (run cp ops s) k = generation s k"
  using assms
proof (induction ops arbitrary: s)
  case Nil
  show ?case by (simp add: run_def)
next
  case (Cons x ops)
  have "generation (step cp x s) k = generation s k"
    using Cons.prems by (auto simp: generation_step split: op.splits)
  moreover have "generation (run cp ops (step cp x s)) k = generation (step cp x s) k"
    using Cons.prems by (intro Cons.IH) simp
  ultimately show ?case by (simp add: run_def)
qed

lemma generation_run_grows:
  assumes "RegisterAtom k v \<in> set ops"
  shows "generation s k < generation (run JS ops s) k"
  using assms
proof (induction ops arbitrary: s)
  case Nil
  then show ?case by simp
next
  case (Cons x ops)
  have r: "run JS (x # ops) s = run JS ops (step JS x s)"
    by (simp add: run_def)
  show ?case
  proof (cases "x = RegisterAtom k v")
    case True
    then have "generation s k < generation (step JS x s) k"
      by (simp add: generation_step)
    also have "\<dots> \<le> generation (run JS ops (step JS x s)) k"
      by (rule generation_run_mono)
    finally show ?thesis unfolding r .
  next
    case False
    then have "RegisterAtom k v \<in> set ops" using Cons.prems by simp
    then have "generation (step JS x s) k < generation (run JS ops (step JS x s)) k"
      by (rule Cons.IH)
    moreover have "generation s k \<le> generation (step JS x s) k"
      by (simp add: generation_step split: op.splits)
    ultimately show ?thesis unfolding r by simp
  qed
qed

lemma generation_subscribe: "generation (cell_subscribe cp k cb s) = generation s"
  by (cases "map_of (atoms s) k"; cases cp;
      simp add: cell_subscribe_def sv_subscribe_def bc_fold atom_subscribe_nf sv_log_def
        console_log_def)

lemma generation_unsubscribe: "generation (atom_unsubscribe k fn s) = generation s"
  by (simp add: atom_unsubscribe_def split: option.splits)

lemma js_unsubscribe_twice:
  "js_unsubscribe k n fn (js_unsubscribe k n fn s) = js_unsubscribe k n fn s"
  by (simp add: js_unsubscribe_def generation_unsubscribe unsubscribe_twice)

lemma js_reachable:
  "run JS ops1 (cell_subscribe JS k cb (run JS ops0 s)) = run JS (ops0 @ CellSubscribe k cb # ops1) s"
  by (simp add: run_def step_def)



section \<open>After unsubscribing, in the child client of the Svelte demo\<close>

lemma fold_c_invoke:
  "fold (c_invoke k v) subs c = c\<lparr>c_calls := c_calls c @ map (\<lambda>cb. (k, cb, v)) subs\<rparr>"
proof (induction subs arbitrary: c)
  case Nil
  show ?case by simp
next
  case (Cons cb subs)
  show ?case
    apply (simp only: fold_simps comp_apply Cons)
    apply (simp add: c_invoke_def)
    done
qed

lemma handleMessage_nf:
  "handleMessage ev c =
     (case data ev of
        AtomSync k v t \<Rightarrow>
          c\<lparr>c_state := map_set k v (c_state c),
            c_console := c_console c @ (if c_debug c then [ConsoleLog ''Received atom update''] else []),
            c_calls := c_calls c @ map (\<lambda>cb. (k, cb, v)) (c_subs c k)\<rparr>
      | _ \<Rightarrow> c)"
  by (simp add: handleMessage_def Let_def c_log_def fold_c_invoke c_subs_def
      split: message.splits option.splits)

lemmas child_simps =
  child_step_def c_message_def handleMessage_nf getValue_def setValue_def subscribe_nf
  unsubscribe_nf requestSync_def c_destroy_def c_log_def c_postToParent_def Let_def

lemma child_step_calls:
  "c_calls (child_step x c) = c_calls c @
     (case x of
        CMessage ev \<Rightarrow>
          (if c_listening c
           then (case data ev of AtomSync k v t \<Rightarrow> map (\<lambda>cb. (k, cb, v)) (c_subs c k) | _ \<Rightarrow> [])
           else [])
      | CSubscribe k cb \<Rightarrow> (if state_get k c \<noteq> Undefined then [(k, cb, state_get k c)] else [])
      | _ \<Rightarrow> [])"
  by (cases x) (simp_all add: child_simps split: message.splits)

lemma child_step_subs:
  "set (c_subs (child_step x c) k) \<subseteq> set (c_subs c k) \<union>
     (case x of CSubscribe k' cb \<Rightarrow> if k' = k then {cb} else {} | _ \<Rightarrow> {})"
  by (cases x)
     (auto simp: child_simps c_subs_def map_of_map_set map_of_map_delete set_add_def
        split: message.splits option.splits if_splits)

lemma child_new_calls:
  "c_new_calls c (child_step x c) =
     (case x of
        CMessage ev \<Rightarrow>
          (if c_listening c
           then (case data ev of AtomSync k v t \<Rightarrow> map (\<lambda>cb. (k, cb, v)) (c_subs c k) | _ \<Rightarrow> [])
           else [])
      | CSubscribe k cb \<Rightarrow> (if state_get k c \<noteq> Undefined then [(k, cb, state_get k c)] else [])
      | _ \<Rightarrow> [])"
  by (simp add: c_new_calls_def child_step_calls)

lemma child_not_subscribed_step:
  assumes "cb \<notin> set (c_subs c k)" "x \<noteq> CSubscribe k cb"
  shows "cb \<notin> set (c_subs (child_step x c) k)"
    and "(k, cb, v) \<notin> set (c_new_calls c (child_step x c))"
proof -
  show "cb \<notin> set (c_subs (child_step x c) k)"
    using child_step_subs[of x c k] assms by (cases x) (auto split: if_splits)
  show "(k, cb, v) \<notin> set (c_new_calls c (child_step x c))"
  proof (cases x)
    case (CMessage ev)
    show ?thesis
    proof (cases "c_listening c")
      case True
      then show ?thesis
        using assms(1) by (cases "data ev") (auto simp: child_new_calls CMessage)
    next
      case False
      then show ?thesis by (simp add: child_new_calls CMessage)
    qed
  next
    case (CSubscribe k' cb')
    then show ?thesis using assms(2) by (auto simp: child_new_calls)
  qed (simp_all add: child_new_calls)
qed

lemma child_calls_run: "\<exists>xs. c_calls (child_run ops c) = c_calls c @ xs"
proof (induction ops arbitrary: c)
  case Nil
  show ?case by (simp add: child_run_def)
next
  case (Cons x ops)
  obtain xs where "c_calls (child_run ops (child_step x c)) = c_calls (child_step x c) @ xs"
    using Cons by blast
  then show ?case by (simp add: child_run_def child_step_calls)
qed

lemma child_not_subscribed_run:
  assumes "cb \<notin> set (c_subs c k)" "CSubscribe k cb \<notin> set ops"
  shows "cb \<notin> set (c_subs (child_run ops c) k)
       \<and> (\<forall>v. (k, cb, v) \<notin> set (c_new_calls c (child_run ops c)))"
  using assms
proof (induction ops arbitrary: c)
  case Nil
  then show ?case by (simp add: child_run_def c_new_calls_def)
next
  case (Cons x ops)
  let ?c = "child_step x c"
  have x: "x \<noteq> CSubscribe k cb" and ops: "CSubscribe k cb \<notin> set ops"
    using Cons.prems(2) by auto
  note st = child_not_subscribed_step[OF Cons.prems(1) x]
  have ih: "cb \<notin> set (c_subs (child_run ops ?c) k)
      \<and> (\<forall>v. (k, cb, v) \<notin> set (c_new_calls ?c (child_run ops ?c)))"
    using Cons.IH[OF st(1) ops] .
  obtain xs where xs: "c_calls ?c = c_calls c @ xs"
    by (auto simp: child_step_calls)
  obtain ys where ys: "c_calls (child_run ops ?c) = c_calls ?c @ ys"
    using child_calls_run by blast
  have r: "child_run (x # ops) c = child_run ops ?c"
    by (simp add: child_run_def)
  have split: "c_new_calls c (child_run (x # ops) c) =
      c_new_calls c ?c @ c_new_calls ?c (child_run ops ?c)"
    unfolding r by (simp add: c_new_calls_def xs ys)
  show ?case using ih st(2) unfolding split by (simp add: r)
qed

lemma child_unsubscribed: "cb \<notin> set (c_subs (unsubscribe k cb c) k)"
  by (auto simp: unsubscribe_nf c_subs_def map_of_map_set map_of_map_delete
      split: option.splits if_splits)

lemma child_unsubscribe_twice:
  "unsubscribe k cb (unsubscribe k cb c) = c_log ''Unsubscribed from'' (unsubscribe k cb c)"
proof (cases "map_of (c_subscribers c) k")
  case None
  then show ?thesis by (simp add: unsubscribe_nf c_log_def)
next
  case (Some subs)
  show ?thesis
  proof (cases "removeAll cb subs = []")
    case True
    then show ?thesis using Some
      by (simp add: unsubscribe_nf c_log_def map_of_map_delete)
  next
    case False
    then show ?thesis using Some
      by (simp add: unsubscribe_nf c_log_def map_of_map_set map_set_map_set)
  qed
qed


section \<open>The child client of the JavaScript and TypeScript copies\<close>

text \<open>The coordinator inside a child client is one that the operations reach from its
  constructor, and the client's subscriptions are subscriptions to its cells.\<close>

lemma ts_registerAll_run:
  "ts_registerAll atomConfigs s = Returned u s' \<Longrightarrow> s' = run TS (registerAll atomConfigs) s"
proof (induction atomConfigs arbitrary: s)
  case Nil
  then show ?case by (simp add: run_def registerAll_def)
next
  case (Cons p atomConfigs)
  obtain k iv where p: "p = (k, iv)" by (cases p)
  from Cons.prems obtain s1 where s1: "ts_registerAtom k (fallback iv) s = Returned () s1"
    and rest: "ts_registerAll atomConfigs s1 = Returned u s'"
    by (auto simp: p split: outcome.splits)
  have "step TS (RegisterAtom k (fallback iv)) s = s1"
    by (simp add: step_def registerAtom_def s1)
  then show ?case using Cons.IH[OF rest] by (simp add: run_def registerAll_def p)
qed

lemma js_registerAll_run:
  "fold (\<lambda>(k, iv). js_registerAtom k (fallback iv)) atomConfigs s = run JS (registerAll atomConfigs) s"
proof (induction atomConfigs arbitrary: s)
  case Nil
  show ?case by (simp add: run_def registerAll_def)
next
  case (Cons p atomConfigs)
  obtain k iv where p: "p = (k, iv)" by (cases p)
  have "step JS (RegisterAtom k (fallback iv)) s = js_registerAtom k (fallback iv) s"
    by (simp add: step_def registerAtom_def)
  then show ?case using Cons.IH[of "js_registerAtom k (fallback iv) s"]
    by (simp add: run_def registerAll_def p)
qed

lemma run_append: "run cp (xs @ ys) s = run cp ys (run cp xs s)"
  by (simp add: run_def)

lemma ts_createChildClient_run:
  assumes "ts_createChildClient atomConfigs opts w = Returned c s"
  shows "sync c = run TS (registerAll atomConfigs @ [RequestStateFromParent]) (constructor TS opts w)"
    and "client_atoms c = map fst atomConfigs"
proof -
  from assms obtain u s1 where s1: "ts_registerAll atomConfigs (ts_constructor opts w) = Returned u s1"
    and c: "c = \<lparr>sync = ts_requestStateFromParent s1, client_atoms = map fst atomConfigs\<rparr>"
    by (auto simp: ts_createChildClient_def Let_def split: outcome.splits)
  have "s1 = run TS (registerAll atomConfigs) (constructor TS opts w)"
    using ts_registerAll_run[OF s1] by (simp add: constructor_def)
  then show "sync c = run TS (registerAll atomConfigs @ [RequestStateFromParent]) (constructor TS opts w)"
    by (simp add: c run_append) (simp add: run_def step_def)
  show "client_atoms c = map fst atomConfigs" by (simp add: c)
qed

lemma js_createChildClient_run:
  "sync (js_createChildClient atomConfigs opts w) =
     run JS (registerAll atomConfigs @ [RequestStateFromParent]) (constructor JS opts w)"
  by (simp add: js_createChildClient_def Let_def js_registerAll_run run_append constructor_def)
     (simp add: run_def step_def)

lemma subscribeToAtom_step:
  assumes "k \<in> set (client_atoms c)"
  shows "ts_subscribeToAtom k cb c = Returned () (c\<lparr>sync := step TS (CellSubscribe k cb) (sync c)\<rparr>)"
    and "js_subscribeToAtom k cb c = Returned () (c\<lparr>sync := step JS (CellSubscribe k cb) (sync c)\<rparr>)"
  using assms
  by (simp_all add: ts_subscribeToAtom_def js_subscribeToAtom_def step_def cell_subscribe_def)

text \<open>Every operation of the TypeScript child client is a list of operations of its
  coordinator, and leaves the configured keys as they are.\<close>

lemma ts_client_step_sync:
  "sync (ts_client_step x c) = run TS (sync_ops (client_atoms c) x) (sync c)"
  "client_atoms (ts_client_step x c) = client_atoms c"
  by (cases x;
      simp add: ts_client_step_def sync_ops_def ts_updateAtom_def getAtomValue_def
        ts_subscribeToAtom_def client_unsubscribe_def run_def step_def cell_set_def
        cell_subscribe_def)+

lemma ts_client_run_sync:
  "sync (ts_client_run xs c) = run TS (concat (map (sync_ops (client_atoms c)) xs)) (sync c)
   \<and> client_atoms (ts_client_run xs c) = client_atoms c"
proof (induction xs arbitrary: c)
  case Nil
  show ?case by (simp add: ts_client_run_def run_def)
next
  case (Cons x xs)
  have r: "ts_client_run (x # xs) c = ts_client_run xs (ts_client_step x c)"
    by (simp add: ts_client_run_def)
  show ?case
    unfolding r using Cons[of "ts_client_step x c"]
    by (simp add: ts_client_step_sync run_append)
qed

lemma ts_client_run_append:
  "ts_client_run (xs @ ys) c = ts_client_run ys (ts_client_run xs c)"
  by (simp add: ts_client_run_def)

lemma ts_client_reachable:
  assumes "ts_createChildClient atomConfigs opts w = Returned c0 s"
  shows "\<exists>ops. sync (ts_client_run xs c0) = run TS ops (constructor TS opts w)"
  using ts_client_run_sync[of xs c0] ts_createChildClient_run(1)[OF assms]
  by (metis run_append)

lemma sync_ops_subscribe:
  assumes "SubscribeToAtom k cb \<notin> set xs" "OnSync (CellSubscribe k cb) \<notin> set xs"
  shows "CellSubscribe k cb \<notin> set (concat (map (sync_ops ks) xs))"
  using assms
  by (induction xs) (auto simp: sync_ops_def split: client_op.splits if_splits)



section \<open>The function that subscribe returned\<close>

lemma x_client_created:
  "ts_createChildClient [(''x'', Num 1)] no_options inner_window = Returned x_client (sync x_client)"
  by (simp add: ts_createChildClient_def ts_registerAtom_def ts_constructor_def
      ts_requestStateFromParent_def constructor_def x_client_def run_def step_def
      registerAtom_def no_options_def inner_window_def map_has_def fallback_def postMessage_def
      Let_def)

lemma x_client_sync:
  "sync x_client =
     inner_window\<lparr>atoms := [(''x'', \<lparr>val = Num 1, subscribers = []\<rparr>)], targetOrigin := ''*'',
       posted := [(ToParent, ''*'', AtomSyncRequest 0)]\<rparr>"
  "client_atoms x_client = [''x'']"
  by (simp_all add: x_client_def run_def step_def registerAtom_nf constructor_def
      ts_constructor_def ts_requestStateFromParent_def no_options_def inner_window_def
      top_window_def map_has_def postMessage_def)

text \<open>Examples: a coordinator of the JavaScript copy whose cell \<^verbatim>\<open>"x"\<close> has the callback 5
  subscribed, and the same after a second \<^verbatim>\<open>registerAtom\<close> for \<^verbatim>\<open>"x"\<close> and a subscription of
  the callback to the new cell; the child client \<open>x_client\<close> and a child client of the Svelte
  demo with the callback 5 subscribed. As long as the function that \<^verbatim>\<open>subscribe\<close> returned
  has not been called, a change of the value calls the callback.\<close>

lemma subscribed_example:
  "cell_subscribe JS ''x'' 5 (one_cell JS) =
     (one_cell JS)\<lparr>atoms := [(''x'', \<lparr>val = Num 1, subscribers = [Broadcast ''x'', Callback 5]\<rparr>)],
        calls := [(''x'', 5, Num 1)]\<rparr>"
  by (simp add: cell_subscribe_nf one_cell_simps set_add_def subscription_def)

lemma replaced_example:
  "run JS [RegisterAtom ''x'' (Num 2), CellSubscribe ''x'' 5] (cell_subscribe JS ''x'' 5 (one_cell JS)) =
     (one_cell JS)\<lparr>atoms := [(''x'', \<lparr>val = Num 2, subscribers = [Broadcast ''x'', Callback 5]\<rparr>)],
        console := console (one_cell JS) @
          [ConsoleLog ''[IframeStateSync] Broadcasted'',
           ConsoleLog ''[IframeStateSync] Registered atom''],
        calls := [(''x'', 5, Num 1), (''x'', 5, Num 2)],
        generation := (\<lambda>k. 0)(''x'' := Suc (Suc 0))\<rparr>"
  apply (simp add: run_def step_def subscribed_example registerAtom_nf)
  apply (simp add: one_cell_simps cell_subscribe_nf set_add_def subscription_def map_has_def
      bc_posts_def List.map_filter_simps top_window_def)
  done

lemma live_example:
  "(let s1 = run JS [CellSet ''x'' (Num 2)] (cell_subscribe JS ''x'' 5 (one_cell JS))
    in new_calls s1 (run JS [CellSet ''x'' (Num 8)] s1) = [(''x'', 5, Num 8)])"
  unfolding Let_def
  by (simp add: run_def step_def subscribed_example cell_set_nf notify_calls_def new_calls_def)

lemma child_live_example:
  "(let c = subscribe ''x'' 5 (sv_createChildClient no_options embedded_window)
    in c_new_calls c (child_run [CMessage \<lparr>data = AtomSync ''x'' (Num 8) 0, source = None\<rparr>] c)
         = [(''x'', 5, Num 8)])"
  unfolding Let_def
  by (simp add: child_run_def child_new_calls subscribe_nf c_subs_def map_of_map_set set_add_def)

lemma x_client_subscribed:
  "state_of (ts_subscribeToAtom ''x'' 5 x_client) =
     x_client\<lparr>sync := (sync x_client)
        \<lparr>atoms := [(''x'', \<lparr>val = Num 1, subscribers = [Callback 5]\<rparr>)],
          calls := [(''x'', 5, Num 1)]\<rparr>\<rparr>"
  by (simp add: ts_subscribeToAtom_def x_client_sync bc_fold atom_subscribe_nf set_add_def
      notify_posts_def notify_console_def notify_calls_def inner_window_def)

lemma subscribed_is_called:
  "(let t1 = state_of (ts_subscribeToAtom ''x'' 5 x_client)
    in new_calls (sync t1) (sync (ts_client_run [UpdateAtom ''x'' (Num 8)] t1)) =
         [(''x'', 5, Num 8)])"
  unfolding Let_def x_client_subscribed
  by (simp add: ts_client_run_def ts_client_step_def ts_updateAtom_def x_client_sync bc_fold
      atom_set_nf ts_sendToParent_def postMessage_def notify_posts_def notify_console_def
      notify_calls_def new_calls_def inner_window_def)

text \<open>
  C9: the function that \<^verbatim>\<open>subscribe\<close> returned can be called again: the second call
  returns and changes nothing (the child client of the Svelte demo writes its debug line
  again). After its first call no change of the cell's value invokes the callback, whatever
  happens next short of subscribing the same callback to the same key again: no call of
  \<open>cb\<close> for the key \<open>k\<close> is added to the log.

  \<^item> A cell of the JavaScript copy, in a coordinator in any state it can reach (\<open>ops0\<close>),
    in root or child role: \<^verbatim>\<open>subscribe\<close> is called on the cell under \<open>k\<close>, anything may
    happen (\<open>ops1\<close>), and then the function is called. If no \<^verbatim>\<open>registerAtom\<close> has replaced
    the cell in between, the callback is not invoked afterwards. If one has, the function
    acts on the replaced cell, which the coordinator no longer holds, and the state of the
    coordinator is left as it is.
  \<^item> The child client of the TypeScript copy, in any state it can reach from
    \<^verbatim>\<open>createChildClient\<close> (\<open>tops0\<close>): \<^verbatim>\<open>subscribeToAtom\<close> is called, anything may happen
    (\<open>tops1\<close>), and then the function it returned is called.
  \<^item> The child client of the Svelte demo in any state, where the function looks the
    subscribers up under the key when it is called.
\<close>

theorem unsubscribe_is_final:
  "(let s0 = run JS ops0 (constructor JS opts w0);
        n = generation s0 k;
        s1 = run JS ops1 (cell_subscribe JS k cb s0);
        s2 = js_unsubscribe k n (Callback cb) s1
    in js_unsubscribe k n (Callback cb) s2 = s2
     \<and> ((\<exists>v. RegisterAtom k v \<in> set ops1) \<longrightarrow> s2 = s1)
     \<and> ((\<forall>v. RegisterAtom k v \<notin> set ops1) \<longrightarrow> CellSubscribe k cb \<notin> set ops \<longrightarrow>
          (\<forall>v. (k, cb, v) \<notin> set (new_calls s2 (run JS ops s2)))))
   \<and> (ts_createChildClient atomConfigs topts tw = Returned t0 ts \<longrightarrow>
        (let t1 = ts_client_run tops1
                    (state_of (ts_subscribeToAtom k cb (ts_client_run tops0 t0)));
             t2 = client_unsubscribe k cb t1
         in client_unsubscribe k cb t2 = t2
          \<and> (SubscribeToAtom k cb \<notin> set tops \<longrightarrow> OnSync (CellSubscribe k cb) \<notin> set tops \<longrightarrow>
               (\<forall>v. (k, cb, v) \<notin> set (new_calls (sync t2) (sync (ts_client_run tops t2)))))))
   \<and> (CSubscribe k cb \<notin> set cops \<longrightarrow>
      (let c1 = unsubscribe k cb c
       in unsubscribe k cb c1 = c_log ''Unsubscribed from'' c1
        \<and> (\<forall>v. (k, cb, v) \<notin> set (c_new_calls c1 (child_run cops c1)))))"
proof (intro conjI)
  define s0 where "s0 = run JS ops0 (constructor JS opts w0)"
  define s1 where "s1 = run JS ops1 (cell_subscribe JS k cb s0)"
  define s2 where "s2 = js_unsubscribe k (generation s0 k) (Callback cb) s1"
  have twice: "js_unsubscribe k (generation s0 k) (Callback cb) s2 = s2"
    unfolding s2_def by (rule js_unsubscribe_twice)
  have stale: "s2 = s1" if "RegisterAtom k v \<in> set ops1" for v
  proof -
    have "generation (cell_subscribe JS k cb s0) k < generation s1 k"
      unfolding s1_def using that by (rule generation_run_grows)
    then show ?thesis by (simp add: s2_def js_unsubscribe_def generation_subscribe)
  qed
  have final: "(k, cb, v) \<notin> set (new_calls s2 (run JS ops s2))"
    if same: "\<forall>v. RegisterAtom k v \<notin> set ops1" and ops: "CellSubscribe k cb \<notin> set ops" for v
  proof -
    have "generation s1 k = generation s0 k"
      unfolding s1_def using same by (simp add: generation_run_same generation_subscribe)
    then have s2: "s2 = atom_unsubscribe k (Callback cb) s1"
      by (simp add: s2_def js_unsubscribe_def)
    have "wrapper_free s1"
      unfolding s1_def s0_def js_reachable by (rule reachable_wrapper_free) simp
    then have "\<not> listens s2 k cb" unfolding s2 by (rule unsubscribe_stops_listening)
    then show ?thesis using not_listening_run[OF _ ops] by blast
  qed
  show "let s0 = run JS ops0 (constructor JS opts w0);
        n = generation s0 k;
        s1 = run JS ops1 (cell_subscribe JS k cb s0);
        s2 = js_unsubscribe k n (Callback cb) s1
    in js_unsubscribe k n (Callback cb) s2 = s2
     \<and> ((\<exists>v. RegisterAtom k v \<in> set ops1) \<longrightarrow> s2 = s1)
     \<and> ((\<forall>v. RegisterAtom k v \<notin> set ops1) \<longrightarrow> CellSubscribe k cb \<notin> set ops \<longrightarrow>
          (\<forall>v. (k, cb, v) \<notin> set (new_calls s2 (run JS ops s2))))"
    unfolding Let_def s0_def[symmetric] s1_def[symmetric] s2_def[symmetric]
    using twice stale final by blast
next
  show "ts_createChildClient atomConfigs topts tw = Returned t0 ts \<longrightarrow>
        (let t1 = ts_client_run tops1
                    (state_of (ts_subscribeToAtom k cb (ts_client_run tops0 t0)));
             t2 = client_unsubscribe k cb t1
         in client_unsubscribe k cb t2 = t2
          \<and> (SubscribeToAtom k cb \<notin> set tops \<longrightarrow> OnSync (CellSubscribe k cb) \<notin> set tops \<longrightarrow>
               (\<forall>v. (k, cb, v) \<notin> set (new_calls (sync t2) (sync (ts_client_run tops t2))))))"
  proof (intro impI)
    assume made: "ts_createChildClient atomConfigs topts tw = Returned t0 ts"
    define t1 where "t1 = ts_client_run tops1
        (state_of (ts_subscribeToAtom k cb (ts_client_run tops0 t0)))"
    define t2 where "t2 = client_unsubscribe k cb t1"
    have "t1 = ts_client_run (tops0 @ SubscribeToAtom k cb # tops1) t0"
      by (simp add: t1_def ts_client_run_def ts_client_step_def)
    then obtain xs where "sync t1 = run TS xs (constructor TS topts tw)"
      using ts_client_reachable[OF made] by metis
    then have "wrapper_free (sync t1)"
      by (simp add: reachable_wrapper_free)
    then have quiet: "\<not> listens (sync t2) k cb"
      unfolding t2_def client_unsubscribe_def by (simp add: unsubscribe_stops_listening)
    have twice: "client_unsubscribe k cb t2 = t2"
      by (simp add: t2_def client_unsubscribe_def unsubscribe_twice)
    have final: "(k, cb, v) \<notin> set (new_calls (sync t2) (sync (ts_client_run tops t2)))"
      if "SubscribeToAtom k cb \<notin> set tops" "OnSync (CellSubscribe k cb) \<notin> set tops" for v
    proof -
      have "CellSubscribe k cb \<notin> set (concat (map (sync_ops (client_atoms t2)) tops))"
        using that by (rule sync_ops_subscribe)
      from not_listening_run[OF quiet this, of TS] show ?thesis
        by (simp add: ts_client_run_sync)
    qed
    show "let t1 = ts_client_run tops1
                    (state_of (ts_subscribeToAtom k cb (ts_client_run tops0 t0)));
             t2 = client_unsubscribe k cb t1
         in client_unsubscribe k cb t2 = t2
          \<and> (SubscribeToAtom k cb \<notin> set tops \<longrightarrow> OnSync (CellSubscribe k cb) \<notin> set tops \<longrightarrow>
               (\<forall>v. (k, cb, v) \<notin> set (new_calls (sync t2) (sync (ts_client_run tops t2)))))"
      unfolding Let_def t1_def[symmetric] t2_def[symmetric]
      using twice final by blast
  qed
next
  show "CSubscribe k cb \<notin> set cops \<longrightarrow>
      (let c1 = unsubscribe k cb c
       in unsubscribe k cb c1 = c_log ''Unsubscribed from'' c1
        \<and> (\<forall>v. (k, cb, v) \<notin> set (c_new_calls c1 (child_run cops c1))))"
  proof (intro impI)
    assume cops: "CSubscribe k cb \<notin> set cops"
    show "let c1 = unsubscribe k cb c
         in unsubscribe k cb c1 = c_log ''Unsubscribed from'' c1
          \<and> (\<forall>v. (k, cb, v) \<notin> set (c_new_calls c1 (child_run cops c1)))"
      unfolding Let_def
      using child_unsubscribe_twice[of k cb c]
        child_not_subscribed_run[OF child_unsubscribed cops, of c] by blast
  qed
qed



theorem unsubscribe_is_final_witness:
  "(\<forall>v. RegisterAtom ''x'' v \<notin> set [CellSet ''x'' (Num 2)])
   \<and> CellSubscribe ''x'' 5 \<notin> set [CellSet ''x'' (Num 8)]
   \<and> (''x'', 5, Num 8) \<in>
       set (new_calls
              (run JS [CellSet ''x'' (Num 2)] (cell_subscribe JS ''x'' 5 (one_cell JS)))
              (run JS [CellSet ''x'' (Num 8)]
                 (run JS [CellSet ''x'' (Num 2)] (cell_subscribe JS ''x'' 5 (one_cell JS)))))
   \<and> (''x'', 5, Num 8) \<notin>
       set (new_calls
              (js_unsubscribe ''x'' (generation (one_cell JS) ''x'') (Callback 5)
                 (run JS [CellSet ''x'' (Num 2)] (cell_subscribe JS ''x'' 5 (one_cell JS))))
              (run JS [CellSet ''x'' (Num 8)]
                 (js_unsubscribe ''x'' (generation (one_cell JS) ''x'') (Callback 5)
                    (run JS [CellSet ''x'' (Num 2)] (cell_subscribe JS ''x'' 5 (one_cell JS))))))
   \<and> (\<exists>v. RegisterAtom ''x'' v \<in> set [RegisterAtom ''x'' (Num 2), CellSubscribe ''x'' 5])
   \<and> js_unsubscribe ''x'' (generation (one_cell JS) ''x'') (Callback 5)
        (run JS [RegisterAtom ''x'' (Num 2), CellSubscribe ''x'' 5]
           (cell_subscribe JS ''x'' 5 (one_cell JS)))
       = run JS [RegisterAtom ''x'' (Num 2), CellSubscribe ''x'' 5]
           (cell_subscribe JS ''x'' 5 (one_cell JS))
   \<and> ts_createChildClient [(''x'', Num 1)] no_options inner_window
       = Returned x_client (sync x_client)
   \<and> SubscribeToAtom ''x'' 5 \<notin> set [UpdateAtom ''x'' (Num 8)]
   \<and> OnSync (CellSubscribe ''x'' 5) \<notin> set [UpdateAtom ''x'' (Num 8)]
   \<and> (''x'', 5, Num 8) \<in>
       set (new_calls
              (sync (state_of (ts_subscribeToAtom ''x'' 5 x_client)))
              (sync (ts_client_run [UpdateAtom ''x'' (Num 8)]
                       (state_of (ts_subscribeToAtom ''x'' 5 x_client)))))
   \<and> (''x'', 5, Num 8) \<notin>
       set (new_calls
              (sync (client_unsubscribe ''x'' 5 (state_of (ts_subscribeToAtom ''x'' 5 x_client))))
              (sync (ts_client_run [UpdateAtom ''x'' (Num 8)]
                       (client_unsubscribe ''x'' 5
                          (state_of (ts_subscribeToAtom ''x'' 5 x_client))))))
   \<and> CSubscribe ''x'' 5 \<notin>
       set [CUnsubscribe ''x'' 5, CMessage \<lparr>data = AtomSync ''x'' (Num 8) 0, source = None\<rparr>]
   \<and> (''x'', 5, Num 8) \<in>
       set (c_new_calls
              (subscribe ''x'' 5 (sv_createChildClient no_options embedded_window))
              (child_run [CMessage \<lparr>data = AtomSync ''x'' (Num 8) 0, source = None\<rparr>]
                 (subscribe ''x'' 5 (sv_createChildClient no_options embedded_window))))
   \<and> (''x'', 5, Num 8) \<notin>
       set (c_new_calls
              (unsubscribe ''x'' 5 (subscribe ''x'' 5 (sv_createChildClient no_options embedded_window)))
              (child_run
                 [CUnsubscribe ''x'' 5, CMessage \<lparr>data = AtomSync ''x'' (Num 8) 0, source = None\<rparr>]
                 (unsubscribe ''x'' 5
                    (subscribe ''x'' 5 (sv_createChildClient no_options embedded_window)))))"
proof -
  have h1: "\<forall>v. RegisterAtom ''x'' v \<notin> set [CellSet ''x'' (Num 2)]" by simp
  have h2: "CellSubscribe ''x'' 5 \<notin> set [CellSet ''x'' (Num 8)]" by simp
  have h3: "\<exists>v. RegisterAtom ''x'' v \<in> set [RegisterAtom ''x'' (Num 2), CellSubscribe ''x'' 5]"
    by simp
  have h4: "ts_createChildClient [(''x'', Num 1)] no_options inner_window
      = Returned x_client (sync x_client)"
    by (rule x_client_created)
  have h5: "SubscribeToAtom ''x'' 5 \<notin> set [UpdateAtom ''x'' (Num 8)]"
    "OnSync (CellSubscribe ''x'' 5) \<notin> set [UpdateAtom ''x'' (Num 8)]"
    by simp_all
  have h6: "CSubscribe ''x'' 5 \<notin>
      set [CUnsubscribe ''x'' 5, CMessage \<lparr>data = AtomSync ''x'' (Num 8) 0, source = None\<rparr>]"
    by simp
  have h7: "(''x'', 5, Num 8) \<in>
      set (new_calls
             (sync (state_of (ts_subscribeToAtom ''x'' 5 x_client)))
             (sync (ts_client_run [UpdateAtom ''x'' (Num 8)]
                      (state_of (ts_subscribeToAtom ''x'' 5 x_client)))))"
    using subscribed_is_called by (simp add: Let_def)
  have h8: "(''x'', 5, Num 8) \<in>
      set (new_calls
             (run JS [CellSet ''x'' (Num 2)] (cell_subscribe JS ''x'' 5 (one_cell JS)))
             (run JS [CellSet ''x'' (Num 8)]
                (run JS [CellSet ''x'' (Num 2)] (cell_subscribe JS ''x'' 5 (one_cell JS)))))"
    using live_example by (simp add: Let_def)
  have h9: "(''x'', 5, Num 8) \<in>
      set (c_new_calls
             (subscribe ''x'' 5 (sv_createChildClient no_options embedded_window))
             (child_run [CMessage \<lparr>data = AtomSync ''x'' (Num 8) 0, source = None\<rparr>]
                (subscribe ''x'' 5 (sv_createChildClient no_options embedded_window))))"
    using child_live_example by (simp add: Let_def)
  have e: "ts_client_run [] t = t" for t
    by (simp add: ts_client_run_def)
  note live = unsubscribe_is_final[where ?ops0.0 = "[RegisterAtom ''x'' (Num 1)]"
      and opts = no_options and ?w0.0 = top_window and k = "''x''" and cb = 5
      and ?ops1.0 = "[CellSet ''x'' (Num 2)]" and ops = "[CellSet ''x'' (Num 8)]"
      and atomConfigs = "[(''x'', Num 1)]" and topts = no_options and tw = inner_window
      and ?t0.0 = x_client and ts = "sync x_client" and ?tops0.0 = "[]" and ?tops1.0 = "[]"
      and tops = "[UpdateAtom ''x'' (Num 8)]"
      and cops = "[CUnsubscribe ''x'' 5,
                   CMessage \<lparr>data = AtomSync ''x'' (Num 8) 0, source = None\<rparr>]"
      and c = "subscribe ''x'' 5 (sv_createChildClient no_options embedded_window)",
      folded one_cell_def, unfolded Let_def e]
  note stale = unsubscribe_is_final[where ?ops0.0 = "[RegisterAtom ''x'' (Num 1)]"
      and opts = no_options and ?w0.0 = top_window and k = "''x''" and cb = 5
      and ?ops1.0 = "[RegisterAtom ''x'' (Num 2), CellSubscribe ''x'' 5]",
      folded one_cell_def, unfolded Let_def, THEN conjunct1, THEN conjunct2, THEN conjunct1]
  from live stale h1 h2 h3 h4 h5 h6 h7 h8 h9 show ?thesis by blast
qed

text \<open>
  The function that \<^verbatim>\<open>subscribe\<close> of a cell of the JavaScript copy returned acts on that
  cell only. Here the callback 5 is subscribed to the cell \<^verbatim>\<open>"x"\<close>, a second
  \<^verbatim>\<open>registerAtom\<close> puts another cell under \<^verbatim>\<open>"x"\<close>, and the callback is subscribed to that
  cell too. The function that the first \<^verbatim>\<open>subscribe\<close> returned then changes nothing in the
  coordinator: the subscription to the other cell stands, and a change of that cell's value
  calls the callback.
\<close>

lemma stale_function_example:
  "(let s1 = run JS [RegisterAtom ''x'' (Num 2), CellSubscribe ''x'' 5]
               (cell_subscribe JS ''x'' 5 (one_cell JS));
        s2 = js_unsubscribe ''x'' (generation (one_cell JS) ''x'') (Callback 5) s1
    in generation (one_cell JS) ''x'' < generation s1 ''x'' \<and> s2 = s1
     \<and> new_calls s2 (cell_set JS ''x'' (Num 8) s2) = [(''x'', 5, Num 8)])"
proof -
  define s1 where "s1 = run JS [RegisterAtom ''x'' (Num 2), CellSubscribe ''x'' 5]
      (cell_subscribe JS ''x'' 5 (one_cell JS))"
  define s2 where "s2 = js_unsubscribe ''x'' (generation (one_cell JS) ''x'') (Callback 5) s1"
  note s1 = replaced_example[folded s1_def]
  have g: "generation (one_cell JS) ''x'' < generation s1 ''x''"
    by (simp add: s1) (simp add: one_cell_simps)
  then have same: "s2 = s1" by (simp add: s2_def js_unsubscribe_def)
  have "new_calls s1 (cell_set JS ''x'' (Num 8) s1) = [(''x'', 5, Num 8)]"
    by (simp add: cell_set_nf s1 notify_calls_def new_calls_def)
  with g same show ?thesis
    unfolding Let_def s1_def[symmetric] s2_def[symmetric] by simp
qed


section \<open>Logging with the debug option off\<close>

text \<open>With \<^verbatim>\<open>debug\<close> off no operation of any copy writes to the console; the TypeScript and
  Svelte copies, built with no options, therefore never log.\<close>

lemma quiet_notify: "\<not> debug s \<Longrightarrow> notify_console cp subs s = []"
  by (induction subs) (auto simp: notify_console_def bc_console_def split: subscriber.splits)

lemma quiet_step:
  assumes "\<not> debug s"
  shows "console (step cp x s) = console s"
proof (cases x)
  case (Message ev)
  show ?thesis
  proof (cases ev rule: message_cases)
    case (1 k v t)
    then show ?thesis using assms Message
      by (cases cp)
         (simp_all add: step_def value_message_nf quiet_notify sv_log_def split: option.splits)
  next
    case (2 t)
    show ?thesis
    proof (cases cp)
      case Svelte
      then show ?thesis using assms Message
        by (simp add: step_def sv_request_nf[OF 2] sv_syncAllToIframe_nf sv_log_def
            split: option.splits)
    qed (use assms Message in \<open>simp_all add: step_def request_nf[OF 2]\<close>)
  next
    case (3 ty)
    then show ?thesis using Message by (simp add: step_def other_message_nf)
  qed
next
  case (Load e)
  then show ?thesis using assms
    by (simp add: step_def load_nf listener_console_def)
next
  case (CellSubscribe k cb)
  then show ?thesis using assms
    by (cases "map_of (atoms s) k"; cases cp;
        simp add: step_def cell_subscribe_def sv_subscribe_def bc_fold atom_subscribe_nf
          sv_log_def quiet_notify)
qed (use assms in \<open>cases cp; simp add: step_simps quiet_notify split: option.splits\<close>)+

lemma quiet_run: "\<not> debug s \<Longrightarrow> console (run cp ops s) = console s"
proof (induction ops arbitrary: s)
  case Nil
  show ?case by (simp add: run_def)
next
  case (Cons x ops)
  have "console (run cp ops (step cp x s)) = console (step cp x s)"
    using Cons.prems by (intro Cons.IH) (simp add: step_static)
  then show ?case using Cons.prems by (simp add: run_def quiet_step)
qed

lemma quiet_by_default:
  assumes "cp \<noteq> JS"
  shows "console (run cp ops (constructor cp no_options w)) = console w"
proof -
  have "\<not> debug (constructor cp no_options w)" "console (constructor cp no_options w) = console w"
    using assms
    by (cases cp; simp add: constructor_def ts_constructor_def sv_constructor_def no_options_def)+
  then show ?thesis by (simp add: quiet_run)
qed


end
